theory Spec2Isabelle
  imports Complex_Main "HOL-Library.Word"
begin

unbundle bit_operations_syntax

section \<open>BigNumbers.js: the data model\<close>

text \<open>
  A \<open>BigNum\<close> object holds three fields. The coefficient is a JavaScript BigInt, an
  unbounded integer. The exponent and the sign are JavaScript Numbers. The constructor
  reduces every exponent to an int32, and the sums and differences of exponents that
  the operations form stay far below \<open>2 ^ 53\<close> in magnitude, where Number arithmetic
  is exact, so both fields are integers here; the one rounding of a Number the source
  can meet, in \<open>parseInt\<close> on an exponent text of sixteen digits or more, is noted
  there. The precision and digit-count arguments are integers. Strings are lists of
  8-bit code units. Exhaustion of memory by very long coefficients is not part of
  the model.
\<close>

record BigNum =
  coefficient :: int
  exponent :: int
  sign :: int

text \<open>
  The source throws plain \<open>Error\<close> objects told apart by their message, and the built-in
  operations it calls throw \<open>RangeError\<close>:
  \<open>EmptyInput\<close> is "Cannot parse empty string", \<open>InvalidFormat\<close> is "Invalid numeric
  string", \<open>DivisionByZero\<close> is "Division by zero", \<open>InvalidExponent\<close> is "pow: exponent
  must be integer", and \<open>RangeError\<close> is what \<open>BigInt ** negative\<close> and
  \<open>String.repeat(negative)\<close> throw.
\<close>

datatype error = EmptyInput | InvalidFormat | DivisionByZero | InvalidExponent | RangeError

text \<open>
  A Number passed to \<open>pow\<close> as its exponent: a finite value (every finite double is a
  rational) or one of NaN, Infinity, -Infinity.
\<close>

datatype js_number = Finite rat | NonFinite

definition isInteger :: "js_number \<Rightarrow> bool" where
  "isInteger n = (case n of Finite q \<Rightarrow> of_int \<lfloor>q\<rfloor> = q | NonFinite \<Rightarrow> False)"

text \<open>The represented number, \<open>sign * coefficient * 10 ^ exponent\<close>.\<close>

definition val :: "BigNum \<Rightarrow> rat" where
  "val x = of_int (sign x * coefficient x) * 10 powi exponent x"

text \<open>The canonical form of the header comment: what a \<open>BigNum\<close> is meant to be.\<close>

definition canonical :: "BigNum \<Rightarrow> bool" where
  "canonical x =
     (if coefficient x = 0 then exponent x = 0 \<and> sign x = 1
      else 0 < coefficient x \<and> \<not> 10 dvd coefficient x \<and> (sign x = 1 \<or> sign x = - 1))"

section \<open>Built-in operations of the language\<close>

text \<open>\<open>x | 0\<close> on an integer-valued Number: reduction modulo \<open>2 ^ 32\<close> into the int32 range.\<close>

definition ToInt32 :: "int \<Rightarrow> int" where
  "ToInt32 x = (x + 2 ^ 31) mod 2 ^ 32 - 2 ^ 31"

text \<open>BigInt \<open>/\<close> and \<open>%\<close> truncate towards zero.\<close>

definition bigint_div :: "int \<Rightarrow> int \<Rightarrow> int" where
  "bigint_div a b = sgn a * sgn b * (\<bar>a\<bar> div \<bar>b\<bar>)"

definition bigint_rem :: "int \<Rightarrow> int \<Rightarrow> int" where
  "bigint_rem a b = sgn a * (\<bar>a\<bar> mod \<bar>b\<bar>)"

definition digit_char :: "nat \<Rightarrow> char" where
  "digit_char d = ''0123456789'' ! d"

definition is_digit :: "char \<Rightarrow> bool" where
  "is_digit c = (c \<in> set ''0123456789'')"

definition digit_val :: "char \<Rightarrow> int" where
  "digit_val c = int (of_char c) - 48"

text \<open>The decimal numeral of a natural number, and \<open>toString()\<close> of an integer.\<close>

function dec :: "nat \<Rightarrow> string" where
  "dec n = (if n < 10 then [digit_char n] else dec (n div 10) @ [digit_char (n mod 10)])"
  by pat_completeness auto
termination
  by (relation "measure id") auto

definition int_toString :: "int \<Rightarrow> string" where
  "int_toString i = (if i < 0 then CHR ''-'' # dec (nat (- i)) else dec (nat i))"

text \<open>\<open>BigInt(s)\<close> on a string of decimal digits (the empty string gives \<open>0n\<close>).\<close>

definition BigInt_of_digits :: "string \<Rightarrow> int" where
  "BigInt_of_digits s = foldl (\<lambda>a c. 10 * a + digit_val c) 0 s"

text \<open>
  \<open>parseInt(s, 10)\<close> on a string matching \<open>[+-]?\d+\<close>. The result here is the exact
  integer, which is what the source computes for every exponent text denoting a
  magnitude below \<open>2 ^ 53\<close>. Beyond that the source holds a rounded Number; no
  statement below depends on the exponent of such a text.
\<close>

definition parseInt :: "string \<Rightarrow> int" where
  "parseInt s =
     (case s of
        [] \<Rightarrow> 0
      | c # r \<Rightarrow>
          if c = CHR ''-'' then - BigInt_of_digits r
          else if c = CHR ''+'' then BigInt_of_digits r
          else BigInt_of_digits s)"

text \<open>\<open>s.slice(start, end)\<close> and \<open>s.slice(start)\<close>, negative indices counting from the end.\<close>

definition slice_index :: "string \<Rightarrow> int \<Rightarrow> nat" where
  "slice_index s i =
     (if i < 0 then nat (max (int (length s) + i) 0) else nat (min i (int (length s))))"

definition slice :: "string \<Rightarrow> int \<Rightarrow> int \<Rightarrow> string" where
  "slice s start end = take (slice_index s end - slice_index s start) (drop (slice_index s start) s)"

definition slice_from :: "string \<Rightarrow> int \<Rightarrow> string" where
  "slice_from s start = drop (slice_index s start) s"

text \<open>\<open>s.repeat(n)\<close> throws a RangeError on a negative count.\<close>

definition repeat :: "string \<Rightarrow> int \<Rightarrow> error + string" where
  "repeat s n = (if n < 0 then Inl RangeError else Inr (concat (replicate (nat n) s)))"

text \<open>
  \<open>s.trim()\<close>: the white space and line terminators among the 8-bit code units
  (tab, line feed, vertical tab, form feed, carriage return, space, no-break space).
\<close>

definition is_space :: "char \<Rightarrow> bool" where
  "is_space c = (of_char c \<in> {9, 10, 11, 12, 13, 32, 160 :: nat})"

definition trim :: "string \<Rightarrow> string" where
  "trim s = rev (dropWhile is_space (rev (dropWhile is_space s)))"

section \<open>Construction and normalization\<close>

text \<open>
  The loop of \<open>_normalize\<close> (lines 85 to 88). The early return of line 79 makes the
  coefficient nonzero on entry, and dividing a nonzero multiple of ten by ten leaves it
  nonzero, so the conjunct \<open>c \<noteq> 0\<close> never ends a run of the source's loop early; it makes
  the function total.
\<close>

function strip_zeros :: "int \<Rightarrow> int \<Rightarrow> int \<times> int" where
  "strip_zeros c e =
     (if c \<noteq> 0 \<and> bigint_rem c 10 = 0 then strip_zeros (bigint_div c 10) (e + 1) else (c, e))"
  by pat_completeness auto
termination
proof (relation "measure (\<lambda>(c, e). nat \<bar>c\<bar>)")
  show "wf (measure (\<lambda>(c, e). nat \<bar>c\<bar>))" by simp
next
  fix c e :: int
  assume "c \<noteq> 0 \<and> bigint_rem c 10 = 0"
  then have "\<bar>bigint_div c 10\<bar> < \<bar>c\<bar>"
    by (auto simp: bigint_div_def abs_mult abs_sgn_eq)
  then show "((bigint_div c 10, e + 1), (c, e)) \<in> measure (\<lambda>(c, e). nat \<bar>c\<bar>)"
    by simp
qed

definition normalize_BigNum :: "BigNum \<Rightarrow> BigNum" where
  "normalize_BigNum x =
     (if coefficient x = 0 then x\<lparr>exponent := 0, sign := 1\<rparr>
      else
        let (c, e) = strip_zeros (coefficient x) (exponent x);
            y = x\<lparr>coefficient := c, exponent := e\<rparr>
        in if c < 0 then y\<lparr>coefficient := - c, sign := - 1\<rparr> else y)"

text \<open>The constructor, lines 30 to 36.\<close>

definition new_BigNum :: "int \<Rightarrow> int \<Rightarrow> int \<Rightarrow> BigNum" where
  "new_BigNum c e s =
     normalize_BigNum
       \<lparr>coefficient = c, exponent = ToInt32 e,
        sign = (if c = 0 then 1 else if s = - 1 then - 1 else 1)\<rparr>"

definition ZERO :: BigNum where
  "ZERO = new_BigNum 0 0 1"

section \<open>Parsing\<close>

text \<open>
  The regular expression of line 52,
  \<^verbatim>\<open>^([+-])?((?:\d+)(?:\.\d*)?|\.\d+)(?:[eE]([+-]?\d+))?$\<close>,
  as a scanner that returns the three capture groups. Each greedy run of digits is
  followed only by constructs that cannot begin with a digit, so the longest run is
  the only one a match can use.
\<close>

text \<open>\<open>([+-])?\<close>: the captured sign, if any, and the rest of the input.\<close>

definition scan_sign :: "string \<Rightarrow> string option \<times> string" where
  "scan_sign s =
     (case s of
        [] \<Rightarrow> (None, [])
      | c # r \<Rightarrow> if c = CHR ''+'' \<or> c = CHR ''-'' then (Some [c], r) else (None, s))"

text \<open>\<open>((?:\d+)(?:\.\d*)?|\.\d+)\<close>: the captured mantissa and the rest of the input.\<close>

definition scan_mantissa :: "string \<Rightarrow> (string \<times> string) option" where
  "scan_mantissa s =
     (let ds = takeWhile is_digit s; r = dropWhile is_digit s in
      if ds \<noteq> [] then
        (case r of
           [] \<Rightarrow> Some (ds, r)
         | c # r' \<Rightarrow>
             if c = CHR ''.''
             then Some (ds @ [c] @ takeWhile is_digit r', dropWhile is_digit r')
             else Some (ds, r))
      else
        (case s of
           [] \<Rightarrow> None
         | c # r' \<Rightarrow>
             if c = CHR ''.'' \<and> takeWhile is_digit r' \<noteq> []
             then Some (c # takeWhile is_digit r', dropWhile is_digit r')
             else None))"

text \<open>
  \<open>(?:[eE]([+-]?\d+))?$\<close>: \<open>Some None\<close> when the input ends here, \<open>Some (Some t)\<close> with
  the captured exponent text, \<open>None\<close> when there is no match.
\<close>

definition scan_exponent :: "string \<Rightarrow> string option option" where
  "scan_exponent s =
     (case s of
        [] \<Rightarrow> Some None
      | c # r \<Rightarrow>
          if c = CHR ''e'' \<or> c = CHR ''E'' then
            (let (sg, r') = scan_sign r; ds = takeWhile is_digit r' in
             if ds \<noteq> [] \<and> dropWhile is_digit r' = []
             then Some (Some ((case sg of None \<Rightarrow> [] | Some t \<Rightarrow> t) @ ds))
             else None)
          else None)"

definition match_numeric :: "string \<Rightarrow> (string option \<times> string \<times> string option) option" where
  "match_numeric s =
     (let (m1, r1) = scan_sign s in
      case scan_mantissa r1 of
        None \<Rightarrow> None
      | Some (m2, r2) \<Rightarrow>
          (case scan_exponent r2 of
             None \<Rightarrow> None
           | Some m3 \<Rightarrow> Some (m1, m2, m3)))"

text \<open>\<open>BigNum.from\<close> on a string, lines 49 to 73.\<close>

definition from_string :: "string \<Rightarrow> error + BigNum" where
  "from_string x =
     (let s = trim x in
      if s = [] then Inl EmptyInput
      else
        case match_numeric s of
          None \<Rightarrow> Inl InvalidFormat
        | Some (m1, m2, m3) \<Rightarrow>
            let sign = (if m1 = Some ''-'' then - 1 else 1);
                num = m2;
                expPart = (case m3 of None \<Rightarrow> 0 | Some t \<Rightarrow> parseInt t)
            in
              if CHR ''.'' \<in> set num then
                let idx = length (takeWhile (\<lambda>c. c \<noteq> CHR ''.'') num);
                    digitsAfter = int (length num) - int idx - 1;
                    num' = take idx num @ drop (idx + 1) num;
                    coeff = (if num' = [] then 0 else BigInt_of_digits num');
                    exponent = expPart - digitsAfter
                in Inr (new_BigNum coeff exponent sign)
              else
                Inr (new_BigNum (BigInt_of_digits num) expPart sign))"

text \<open>
  The grammar as the specification words it: an optional sign, a mantissa that is a
  run of digits with at most one point and at least one digit on one side of the
  point, and an optional exponent made of \<open>e\<close> or \<open>E\<close>, an optional sign and digits.
\<close>

definition digits :: "string \<Rightarrow> bool" where
  "digits s = (s \<noteq> [] \<and> list_all is_digit s)"

definition sign_text :: "string \<Rightarrow> bool" where
  "sign_text s = (s = [] \<or> s = ''+'' \<or> s = ''-'')"

definition mantissa_text :: "string \<Rightarrow> bool" where
  "mantissa_text s =
     (digits s \<or>
      (\<exists>a b. s = a @ ''.'' @ b \<and> list_all is_digit a \<and> list_all is_digit b \<and> (a \<noteq> [] \<or> b \<noteq> [])))"

definition exponent_text :: "string \<Rightarrow> bool" where
  "exponent_text s =
     (s = [] \<or> (\<exists>m g d. s = m @ g @ d \<and> (m = ''e'' \<or> m = ''E'') \<and> sign_text g \<and> digits d))"

definition numeric_text :: "string \<Rightarrow> bool" where
  "numeric_text s = (\<exists>g m e. s = g @ m @ e \<and> sign_text g \<and> mantissa_text m \<and> exponent_text e)"

section \<open>Arithmetic\<close>

text \<open>\<open>_align\<close>, lines 97 to 113: the two signed coefficients and the exponent they share.\<close>

definition align :: "BigNum \<Rightarrow> BigNum \<Rightarrow> int \<times> int \<times> int" where
  "align a b =
     (if coefficient a = 0 then (0, coefficient b * sign b, exponent b)
      else if coefficient b = 0 then (coefficient a * sign a, 0, exponent a)
      else if exponent a = exponent b
        then (coefficient a * sign a, coefficient b * sign b, exponent a)
      else if exponent a > exponent b then
        let diff = exponent a - exponent b;
            scaledB = coefficient b * 10 ^ nat diff
        in (coefficient a * sign a, scaledB * sign b, exponent b + diff)
      else
        let diff = exponent b - exponent a;
            scaledA = coefficient a * 10 ^ nat diff
        in (scaledA * sign a, coefficient b * sign b, exponent a + diff))"

definition add :: "BigNum \<Rightarrow> BigNum \<Rightarrow> BigNum" where
  "add this other =
     (if coefficient this = 0
        then new_BigNum (coefficient other) (exponent other) (sign other)
      else if coefficient other = 0
        then new_BigNum (coefficient this) (exponent this) (sign this)
      else
        let (aC, bC, ex) = align this other;
            sum = aC + bC
        in if sum = 0 then ZERO
           else
             let sign = (if sum < 0 then - 1 else 1)
             in new_BigNum (if sign = - 1 then - sum else sum) ex sign)"

definition sub :: "BigNum \<Rightarrow> BigNum \<Rightarrow> BigNum" where
  "sub this other =
     add this (new_BigNum (coefficient other) (exponent other) (- sign other))"

text \<open>
  The negation the specification speaks of: the sign flipped, the coefficient and the
  exponent kept. The source has no method of this name; \<open>sub\<close> passes the same three
  values to the constructor (line 132).
\<close>

definition negate :: "BigNum \<Rightarrow> BigNum" where
  "negate x = x\<lparr>sign := - sign x\<rparr>"

definition mul :: "BigNum \<Rightarrow> BigNum \<Rightarrow> BigNum" where
  "mul this other =
     (if coefficient this = 0 \<or> coefficient other = 0 then ZERO
      else
        let coeff = coefficient this * coefficient other;
            exponent = exponent this + exponent other;
            sign = sign this * sign other
        in new_BigNum coeff exponent sign)"

text \<open>
  \<open>div\<close>, lines 147 to 179. \<open>BigInt(10) ** BigInt(scale)\<close> throws a RangeError when
  \<open>scale\<close> is negative; \<open>drop\<close> is positive where it is an exponent.
\<close>

definition div_BigNum :: "BigNum \<Rightarrow> BigNum \<Rightarrow> int \<Rightarrow> error + BigNum" where
  "div_BigNum this other precision =
     (if coefficient other = 0 then Inl DivisionByZero
      else if coefficient this = 0 then Inr ZERO
      else
        let scale = precision + 5 in
        if scale < 0 then Inl RangeError
        else
          let scalePow = 10 ^ nat scale;
              numerator = coefficient this * scalePow;
              quotient = bigint_div numerator (coefficient other);
              exponent = exponent this - exponent other - scale;
              sign = sign this * sign other;
              q = quotient;
              totalDigits = int (length (int_toString q))
          in
            if totalDigits > precision then
              let drop = totalDigits - precision;
                  divisor = 10 ^ nat drop;
                  remainder = bigint_rem q divisor;
                  q' = bigint_div q divisor;
                  q'' = (if remainder * 2 \<ge> divisor then q' + 1 else q')
              in Inr (new_BigNum q'' (exponent + drop) sign)
            else Inr (new_BigNum q exponent sign))"

text \<open>
  The loop of \<open>pow\<close>, lines 189 to 193. \<open>&\<close> and \<open>>>=\<close> work on \<open>ToInt32\<close> of their
  operand; \<open>>> 1\<close> is the arithmetic shift.
\<close>

function pow_loop :: "BigNum \<Rightarrow> BigNum \<Rightarrow> int \<Rightarrow> BigNum" where
  "pow_loop res base ex =
     (if ex > 0 then
        pow_loop (if ToInt32 ex AND 1 \<noteq> 0 then mul res base else res)
          (mul base base) (drop_bit 1 (ToInt32 ex))
      else res)"
  by pat_completeness auto
termination
proof (relation "measure (\<lambda>(res, base, ex). nat ex)")
  show "wf (measure (\<lambda>(res, base, ex). nat ex))" by simp
next
  fix res base :: BigNum and ex :: int
  assume pos: "0 < ex"
  have "ToInt32 ex \<le> ex"
  proof -
    have "(ex + 2 ^ 31) mod 2 ^ 32 \<le> ex + 2 ^ 31"
      using pos by (intro zmod_le_nonneg_dividend) simp
    then show ?thesis by (simp add: ToInt32_def)
  qed
  then have "drop_bit 1 (ToInt32 ex) < ex"
    using pos by (simp add: drop_bit_eq_div)
  then show "((if ToInt32 ex AND 1 \<noteq> 0 then mul res base else res, mul base base,
      drop_bit 1 (ToInt32 ex)), (res, base, ex)) \<in> measure (\<lambda>(res, base, ex). nat ex)"
    using pos by simp
qed

text \<open>
  \<open>pow\<close>, lines 182 to 200. \<open>BigNum.from(1)\<close> goes through \<open>(1).toString()\<close>, the
  string \<open>"1"\<close>; the inner call \<open>this.pow(-n)\<close> takes the default precision 40.
\<close>

definition number_value :: "js_number \<Rightarrow> rat" where
  "number_value n = (case n of Finite q \<Rightarrow> q | NonFinite \<Rightarrow> 0)"

function pow :: "BigNum \<Rightarrow> js_number \<Rightarrow> int \<Rightarrow> error + BigNum" where
  "pow this n precision =
     (if \<not> isInteger n then Inl InvalidExponent
      else if number_value n = 0 then Inr (new_BigNum 1 0 1)
      else if number_value n > 0 then
        Inr (pow_loop (new_BigNum 1 0 1)
               (new_BigNum (coefficient this) (exponent this) (sign this))
               \<lfloor>number_value n\<rfloor>)
      else
        (case pow this (Finite (- number_value n)) 40 of
           Inl e \<Rightarrow> Inl e
         | Inr positive \<Rightarrow>
             (case from_string ''1'' of
                Inl e \<Rightarrow> Inl e
              | Inr one \<Rightarrow> div_BigNum one positive precision)))"
  by pat_completeness auto
termination
  by (relation "measure (\<lambda>(this, n, precision). if number_value n < 0 then 1 else 0)")
    (auto simp: number_value_def)

text \<open>\<open>cmp\<close>, lines 203 to 212.\<close>

definition cmp :: "BigNum \<Rightarrow> BigNum \<Rightarrow> int" where
  "cmp this other =
     (if coefficient this = 0 \<and> coefficient other = 0 then 0
      else if sign this \<noteq> sign other then (if sign this > sign other then 1 else - 1)
      else
        let (aC, bC, ex) = align this other in
        if aC = bC then 0
        else
          let c = (if aC > bC then 1 else - 1)
          in if sign this = 1 then c else - c)"

section \<open>Formatting\<close>

text \<open>
  \<open>toString\<close>, lines 230 to 263. The coefficient of a constructed \<open>BigNum\<close> is not
  negative, so its text is a run of digits; \<open>coeffStr[0]\<close> is its first character.
\<close>

definition toString :: "BigNum \<Rightarrow> int \<Rightarrow> string" where
  "toString this significant =
     (if coefficient this = 0 then ''0''
      else
        let coeffStr = int_toString (coefficient this);
            totalDigits = int (length coeffStr);
            exponent = exponent this + (totalDigits - 1)
        in
          if totalDigits \<le> significant then
            let mantissa = take 1 coeffStr @ (if totalDigits > 1 then ''.'' @ slice_from coeffStr 1 else [])
            in (if sign this < 0 then ''-'' else []) @ mantissa @ ''e''
                 @ (if exponent \<ge> 0 then ''+'' else []) @ int_toString exponent
          else
            let keep = significant;
                left = slice coeffStr 0 keep;
                rest = slice_from coeffStr keep;
                rounded = BigInt_of_digits left;
                rounded' =
                  (if (case rest of [] \<Rightarrow> False | c # r \<Rightarrow> (of_char c :: nat) \<ge> of_char CHR ''5'')
                   then rounded + 1 else rounded);
                roundedStr = int_toString rounded';
                mantissa =
                  take 1 roundedStr
                    @ (if length roundedStr > 1 then ''.'' @ slice_from roundedStr 1 else [])
            in
              if int (length roundedStr) > keep then
                let adjExp = exponent + 1
                in (if sign this < 0 then ''-'' else []) @ mantissa @ ''e''
                     @ (if adjExp \<ge> 0 then ''+'' else []) @ int_toString adjExp
              else
                (if sign this < 0 then ''-'' else []) @ mantissa @ ''e''
                  @ (if exponent \<ge> 0 then ''+'' else []) @ int_toString exponent)"

text \<open>\<open>toFixed\<close>, lines 267 to 297.\<close>

definition toFixed :: "BigNum \<Rightarrow> int \<Rightarrow> error + string" where
  "toFixed this decimals =
     (if coefficient this = 0 then
        (case repeat ''0'' decimals of Inl e \<Rightarrow> Inl e | Inr z \<Rightarrow> Inr (''0.'' @ z))
      else
        let coeffStr = int_toString (coefficient this);
            shift = exponent this
        in
          if shift \<ge> 0 then
            (case repeat ''0'' shift of
               Inl e \<Rightarrow> Inl e
             | Inr z \<Rightarrow>
                 let intStr = coeffStr @ z in
                 (case repeat ''0'' decimals of
                    Inl e \<Rightarrow> Inl e
                  | Inr z' \<Rightarrow> Inr ((if sign this < 0 then ''-'' else []) @ intStr @ ''.'' @ z')))
          else
            let absShift = - shift in
            if absShift < int (length coeffStr) then
              let idx = int (length coeffStr) - absShift;
                  intPart = slice coeffStr 0 idx
              in
                (case repeat ''0'' (max 0 (decimals - (int (length coeffStr) - idx))) of
                   Inl e \<Rightarrow> Inl e
                 | Inr z \<Rightarrow>
                     let fracPart = slice_from coeffStr idx @ z;
                         fracPart' = slice fracPart 0 decimals
                     in Inr ((if sign this < 0 then ''-'' else []) @ intPart @ ''.'' @ fracPart'))
            else
              (case repeat ''0'' (absShift - int (length coeffStr)) of
                 Inl e \<Rightarrow> Inl e
               | Inr zeros \<Rightarrow>
                   (case repeat ''0''
                           (max 0 (decimals - (int (length zeros) + int (length coeffStr)))) of
                      Inl e \<Rightarrow> Inl e
                    | Inr z \<Rightarrow>
                        let fracPart = zeros @ coeffStr @ z
                        in Inr ((if sign this < 0 then ''-'' else []) @ ''0.''
                                 @ slice fracPart 0 decimals))))"

text \<open>
  The fixed-point expansion as the specification words it. \<open>fixw k n\<close> is the numeral of
  \<open>n mod 10 ^ k\<close> written with exactly \<open>k\<close> digits. The text of a number to \<open>d\<close> places,
  truncated: a minus sign for a negative number, the numeral of the integer part of its
  magnitude, a point, and the \<open>d\<close> digits that follow the point in the exact expansion,
  which are the last \<open>d\<close> digits of the integer part of the magnitude times \<open>10 ^ d\<close>.
\<close>

fun fixw :: "nat \<Rightarrow> nat \<Rightarrow> string" where
  "fixw 0 n = []"
| "fixw (Suc k) n = fixw k (n div 10) @ [digit_char (n mod 10)]"

definition fixed_point_text :: "BigNum \<Rightarrow> nat \<Rightarrow> string" where
  "fixed_point_text x d =
     (if val x < 0 then ''-'' else []) @ dec (nat \<lfloor>\<bar>val x\<bar>\<rfloor>) @ ''.''
       @ fixw d (nat \<lfloor>\<bar>val x\<bar> * 10 ^ d\<rfloor>)"

section \<open>Facts about the built-in operations and the constructor\<close>

declare strip_zeros.simps [simp del] dec.simps [simp del] pow_loop.simps [simp del]
  pow.simps [simp del]

lemma ToInt32_range: "- (2 ^ 31) \<le> ToInt32 x \<and> ToInt32 x < 2 ^ 31"
  by (simp add: ToInt32_def)

lemma ToInt32_cong: "ToInt32 x mod 2 ^ 32 = x mod 2 ^ 32"
proof -
  have "ToInt32 x = (x + 2 ^ 31) mod 2 ^ 32 - 2 ^ 31" by (simp add: ToInt32_def)
  then have "ToInt32 x mod 2 ^ 32 = ((x + 2 ^ 31) mod 2 ^ 32 - 2 ^ 31) mod 2 ^ 32" by simp
  also have "\<dots> = (x + 2 ^ 31 - 2 ^ 31) mod 2 ^ 32"
    by (rule mod_diff_left_eq)
  finally show ?thesis by simp
qed

lemma ToInt32_id: "- (2 ^ 31) \<le> x \<Longrightarrow> x < 2 ^ 31 \<Longrightarrow> ToInt32 x = x"
  by (simp add: ToInt32_def)

lemma ToInt32_add_left: "ToInt32 (ToInt32 x + y) = ToInt32 (x + y)"
proof -
  have "(ToInt32 x + (y + 2 ^ 31)) mod 2 ^ 32 = (x + (y + 2 ^ 31)) mod 2 ^ 32"
    by (rule mod_add_cong [OF ToInt32_cong refl])
  then show ?thesis by (simp add: ToInt32_def add.assoc)
qed

lemma bigint_rem_10: "bigint_rem c 10 = 0 \<longleftrightarrow> 10 dvd c"
proof -
  have "bigint_rem c 10 = 0 \<longleftrightarrow> c = 0 \<or> \<bar>c\<bar> mod 10 = 0"
    by (simp add: bigint_rem_def sgn_eq_0_iff)
  also have "\<dots> \<longleftrightarrow> 10 dvd \<bar>c\<bar>"
    by (auto simp: mod_eq_0_iff_dvd)
  also have "\<dots> \<longleftrightarrow> 10 dvd c" by simp
  finally show ?thesis .
qed

lemma bigint_div_10: "10 dvd c \<Longrightarrow> bigint_div c 10 = c div 10"
proof -
  assume "10 dvd c"
  then obtain d where d: "c = 10 * d" by (elim dvdE)
  have "sgn d * \<bar>d\<bar> = d" by (simp add: mult_sgn_abs)
  then show ?thesis by (simp add: d bigint_div_def abs_mult sgn_mult)
qed

lemma strip_zeros_post:
  "c \<noteq> 0 \<Longrightarrow> strip_zeros c e = (c', e') \<Longrightarrow>
     c' \<noteq> 0 \<and> \<not> 10 dvd c' \<and> (0 < c' \<longleftrightarrow> 0 < c) \<and> (\<exists>k. e' = e + int k \<and> c = c' * 10 ^ k)"
proof (induction c e arbitrary: c' e' rule: strip_zeros.induct)
  case (1 c e)
  show ?case
  proof (cases "10 dvd c")
    case True
    then obtain d where d: "c = 10 * d" by (elim dvdE)
    with \<open>c \<noteq> 0\<close> have d0: "d \<noteq> 0" by auto
    have bd: "bigint_div c 10 = d" using True d by (simp add: bigint_div_10)
    have step: "strip_zeros c e = strip_zeros d (e + 1)"
      using \<open>c \<noteq> 0\<close> True bd by (subst strip_zeros.simps) (simp add: bigint_rem_10)
    with "1.prems" have sz: "strip_zeros d (e + 1) = (c', e')" by simp
    have "c \<noteq> 0 \<and> bigint_rem c 10 = 0" using \<open>c \<noteq> 0\<close> True by (simp add: bigint_rem_10)
    from "1.IH"[OF this, unfolded bd, OF d0 sz]
    obtain k where k: "c' \<noteq> 0" "\<not> 10 dvd c'" "0 < c' \<longleftrightarrow> 0 < d" "e' = e + 1 + int k" "d = c' * 10 ^ k"
      by auto
    have "e' = e + int (Suc k) \<and> c = c' * 10 ^ Suc k" using k d by simp
    moreover have "0 < d \<longleftrightarrow> 0 < c" using d by auto
    ultimately show ?thesis using k by blast
  next
    case False
    then have "strip_zeros c e = (c, e)"
      by (subst strip_zeros.simps) (simp add: bigint_rem_10)
    with "1.prems" have "c' = c" "e' = e" by simp_all
    with False \<open>c \<noteq> 0\<close> show ?thesis by (auto intro: exI[of _ 0])
  qed
qed

lemma strip_zeros_id: "\<not> 10 dvd c \<Longrightarrow> strip_zeros c e = (c, e)"
  by (subst strip_zeros.simps) (simp add: bigint_rem_10)

lemma canonical_new_BigNum: "canonical (new_BigNum c e s)"
proof (cases "c = 0")
  case True
  then show ?thesis by (simp add: new_BigNum_def normalize_BigNum_def canonical_def)
next
  case False
  obtain c' e' where sz: "strip_zeros c (ToInt32 e) = (c', e')" by (cases "strip_zeros c (ToInt32 e)")
  from strip_zeros_post[OF False sz] have p: "c' \<noteq> 0" "\<not> 10 dvd c'" by auto
  show ?thesis using False sz p
    by (auto simp: new_BigNum_def normalize_BigNum_def canonical_def Let_def)
qed

lemma new_BigNum_canonical_args:
  "0 < c \<Longrightarrow> \<not> 10 dvd c \<Longrightarrow> s = 1 \<or> s = - 1 \<Longrightarrow>
     new_BigNum c e s = \<lparr>coefficient = c, exponent = ToInt32 e, sign = s\<rparr>"
  by (auto simp: new_BigNum_def normalize_BigNum_def strip_zeros_id)

lemma ZERO_eq: "ZERO = \<lparr>coefficient = 0, exponent = 0, sign = 1\<rparr>"
  by (simp add: ZERO_def new_BigNum_def normalize_BigNum_def)

lemma new_BigNum_nonzero:
  assumes "c \<noteq> 0"
  shows "\<exists>k. exponent (new_BigNum c e s) = ToInt32 e + int k
           \<and> \<bar>c\<bar> = coefficient (new_BigNum c e s) * 10 ^ k"
proof -
  obtain c' e' where sz: "strip_zeros c (ToInt32 e) = (c', e')"
    by (cases "strip_zeros c (ToInt32 e)")
  from strip_zeros_post[OF assms sz] obtain k where
    k: "e' = ToInt32 e + int k" "c = c' * 10 ^ k" by auto
  have "exponent (new_BigNum c e s) = e'" "coefficient (new_BigNum c e s) = \<bar>c'\<bar>"
    using assms sz by (auto simp: new_BigNum_def normalize_BigNum_def Let_def)
  with k show ?thesis by (auto simp: abs_mult)
qed

lemma canonical_ZERO: "canonical ZERO"
  by (simp add: ZERO_def canonical_new_BigNum)

lemma canonical_add: "canonical (add a b)"
  by (auto simp: add_def Let_def canonical_new_BigNum canonical_ZERO split: prod.splits)

lemma canonical_sub: "canonical (sub a b)"
  by (simp add: sub_def canonical_add)

lemma canonical_mul: "canonical (mul a b)"
  by (simp add: mul_def Let_def canonical_new_BigNum canonical_ZERO)

lemma canonical_div: "div_BigNum a b p = Inr x \<Longrightarrow> canonical x"
  by (auto simp: div_BigNum_def Let_def canonical_new_BigNum canonical_ZERO split: if_splits)

lemma canonical_pow_loop: "canonical res \<Longrightarrow> canonical (pow_loop res base ex)"
proof (induction res base ex rule: pow_loop.induct)
  case (1 res base ex)
  show ?case
  proof (cases "0 < ex")
    case True
    have "canonical (if ToInt32 ex AND 1 \<noteq> 0 then mul res base else res)"
      using "1.prems" by (simp add: canonical_mul)
    from "1.IH"[OF True this] True show ?thesis
      by (subst pow_loop.simps) simp
  next
    case False
    with "1.prems" show ?thesis by (subst pow_loop.simps) simp
  qed
qed

lemma from_string_one: "from_string ''1'' = Inr \<lparr>coefficient = 1, exponent = 0, sign = 1\<rparr>"
  by (simp add: from_string_def trim_def is_space_def match_numeric_def scan_sign_def
      scan_mantissa_def scan_exponent_def is_digit_def BigInt_of_digits_def digit_val_def
      new_BigNum_canonical_args ToInt32_def)

lemma canonical_pow: "pow a n p = Inr x \<Longrightarrow> canonical x"
proof (cases "isInteger n \<and> number_value n < 0")
  case False
  assume "pow a n p = Inr x"
  then show ?thesis using False
    by (subst (asm) pow.simps)
       (auto simp: canonical_new_BigNum canonical_pow_loop split: if_splits)
next
  case True
  assume r: "pow a n p = Inr x"
  have "number_value (Finite (- number_value n)) > 0" using True by (simp add: number_value_def)
  show ?thesis using r True
    by (subst (asm) pow.simps)
       (auto simp: from_string_one dest: canonical_div split: if_splits sum.splits)
qed

lemma canonical_from_string: "from_string t = Inr x \<Longrightarrow> canonical x"
  by (auto simp: from_string_def Let_def canonical_new_BigNum split: if_splits option.splits prod.splits)

lemma div_BigNum_returns:
  "coefficient b \<noteq> 0 \<Longrightarrow> coefficient a \<noteq> 0 \<Longrightarrow> - 5 \<le> p \<Longrightarrow> \<exists>x. div_BigNum a b p = Inr x"
  by (simp add: div_BigNum_def Let_def)

lemma div_BigNum_errors: "div_BigNum a b p = Inl e \<Longrightarrow> e = DivisionByZero \<or> e = RangeError"
  by (auto simp: div_BigNum_def Let_def split: if_splits)

lemma pow_positive:
  "isInteger n \<Longrightarrow> 0 < number_value n \<Longrightarrow> \<exists>x. pow a n p = Inr x"
  by (subst pow.simps) simp

lemma isInteger_neg: "isInteger n \<Longrightarrow> isInteger (Finite (- number_value n))"
  by (auto simp: isInteger_def number_value_def split: js_number.splits)
     (metis of_int_minus)

lemma five_dvd_mult:
  assumes "5 dvd (x::int) * y"
  shows "5 dvd x \<or> 5 dvd y"
proof -
  have m: "(x * y) mod 5 = ((x mod 5) * (y mod 5)) mod 5"
    by (simp add: mod_mult_eq)
  have rx: "x mod 5 = 0 \<or> x mod 5 = 1 \<or> x mod 5 = 2 \<or> x mod 5 = 3 \<or> x mod 5 = 4"
    by presburger
  have ry: "y mod 5 = 0 \<or> y mod 5 = 1 \<or> y mod 5 = 2 \<or> y mod 5 = 3 \<or> y mod 5 = 4"
    by presburger
  from assms have "(x * y) mod 5 = 0" by (simp add: mod_eq_0_iff_dvd)
  with m have z: "((x mod 5) * (y mod 5)) mod 5 = 0" by simp
  have "x mod 5 = 0 \<or> y mod 5 = 0"
    using rx ry z by (elim disjE) simp_all
  then show ?thesis by (simp add: mod_eq_0_iff_dvd)
qed

lemma ten_dvd_iff: "10 dvd (z::int) \<longleftrightarrow> 2 dvd z \<and> 5 dvd z"
  by presburger

lemma ten_dvd_square: "10 dvd (c::int) * c \<Longrightarrow> 10 dvd c"
proof -
  assume "10 dvd c * c"
  then have a: "2 dvd c * c" and b: "5 dvd c * c"
    using ten_dvd_iff[of "c * c"] by blast+
  from a have "2 dvd c" by simp
  moreover from b have "5 dvd c" using five_dvd_mult[of c c] by blast
  ultimately show ?thesis using ten_dvd_iff[of c] by blast
qed

lemma ten_dvd_cube: "10 dvd (c::int) * c * c \<Longrightarrow> 10 dvd c"
proof -
  assume "10 dvd c * c * c"
  then have a: "2 dvd c * c * c" and b: "5 dvd c * c * c"
    using ten_dvd_iff[of "c * c * c"] by blast+
  from a have "2 dvd c" by simp
  moreover from b have "5 dvd c"
    using five_dvd_mult[of "c * c" c] five_dvd_mult[of c c] by blast
  ultimately show ?thesis using ten_dvd_iff[of c] by blast
qed

lemmas parse_eval = from_string_def trim_def is_space_def match_numeric_def scan_sign_def
  scan_mantissa_def scan_exponent_def is_digit_def BigInt_of_digits_def digit_val_def
  parseInt_def new_BigNum_canonical_args ToInt32_def

lemma canonical_zero: "canonical x \<Longrightarrow> coefficient x = 0 \<Longrightarrow> x = ZERO"
  by (cases x) (simp add: canonical_def ZERO_eq)

lemma new_BigNum_zero: "new_BigNum 0 e s = ZERO"
  by (simp add: new_BigNum_def normalize_BigNum_def ZERO_eq)

lemma add_negate: "add x (negate x) = ZERO"
proof (cases "coefficient x = 0")
  case True
  then show ?thesis by (simp add: add_def negate_def new_BigNum_zero)
next
  case False
  then show ?thesis
    by (simp add: add_def negate_def align_def algebra_simps)
qed

lemma val_wrapped_exponent:
  assumes "0 < e"
  shows "val \<lparr>coefficient = 1, exponent = - e, sign = 1\<rparr>
    < val \<lparr>coefficient = 1, exponent = e, sign = 1\<rparr>"
proof -
  have "(10::rat) powi (- e) < 10 powi e"
    using assms by (intro power_int_strict_increasing) simp_all
  then show ?thesis by (simp add: val_def)
qed

lemma pow_three_unfold:
  "pow a (Finite 3) p =
     Inr (let one = new_BigNum 1 0 1;
              base = new_BigNum (coefficient a) (exponent a) (sign a)
          in mul (mul one base) (mul base base))"
proof -
  have i: "isInteger (Finite 3)" by (simp add: isInteger_def)
  have t3: "ToInt32 3 = 3" and t1: "ToInt32 1 = 1" by (simp_all add: ToInt32_def)
  have l: "pow_loop r b 3 = mul (mul r b) (mul b b)" for r b
    by (subst pow_loop.simps, simp add: t3, subst pow_loop.simps, simp add: t1 drop_bit_eq_div,
        subst pow_loop.simps, simp)
  show ?thesis
    by (subst pow.simps) (simp add: i number_value_def l Let_def)
qed

lemma pow_zero: "pow a (Finite 0) p = Inr \<lparr>coefficient = 1, exponent = 0, sign = 1\<rparr>"
  by (subst pow.simps)
     (simp add: isInteger_def number_value_def new_BigNum_canonical_args ToInt32_def)

lemma mul_ZERO_left: "mul ZERO b = ZERO" and mul_ZERO_right: "mul a ZERO = ZERO"
  by (simp_all add: mul_def ZERO_eq)

lemma ToInt32_idem: "ToInt32 (ToInt32 x) = ToInt32 x"
  using ToInt32_range[of x] by (simp add: ToInt32_id)

lemma ToInt32_add_right: "ToInt32 (x + ToInt32 y) = ToInt32 (x + y)"
  using ToInt32_add_left[of y x] by (simp add: add.commute)

lemma ToInt32_double: "ToInt32 (2 * ToInt32 e) = ToInt32 (2 * e)"
  using ToInt32_add_left[of e "ToInt32 e"] ToInt32_add_right[of e e] by simp

lemma ToInt32_triple_left: "ToInt32 (ToInt32 e + ToInt32 (2 * e)) = ToInt32 (3 * e)"
  using ToInt32_add_left[of e "ToInt32 (2 * e)"] ToInt32_add_right[of e "2 * e"] by simp

lemma ToInt32_triple_right: "ToInt32 (ToInt32 (2 * e) + e) = ToInt32 (3 * e)"
  using ToInt32_add_left[of "2 * e" e] by simp

lemma pow_three_record:
  assumes c: "0 < c" "\<not> 10 dvd c" and s: "s = 1 \<or> s = - 1"
  shows "pow \<lparr>coefficient = c, exponent = e, sign = s\<rparr> (Finite 3) p
    = Inr (mul (mul \<lparr>coefficient = c, exponent = e, sign = s\<rparr>
                 \<lparr>coefficient = c, exponent = e, sign = s\<rparr>)
             \<lparr>coefficient = c, exponent = e, sign = s\<rparr>)"
proof -
  have c2: "0 < c * c" "\<not> 10 dvd c * c"
  proof -
    show "0 < c * c" using c(1) by simp
    show "\<not> 10 dvd c * c" using c(2) ten_dvd_square[of c] by blast
  qed
  have c3: "0 < c * (c * c)" "\<not> 10 dvd c * (c * c)"
  proof -
    show "0 < c * (c * c)" using c(1) by simp
    have "\<not> 10 dvd c * c * c" using c(2) ten_dvd_cube[of c] by blast
    then show "\<not> 10 dvd c * (c * c)" by (simp add: mult.assoc)
  qed
  have ss: "s * s = 1" using s by auto
  have one: "new_BigNum 1 0 1 = \<lparr>coefficient = 1, exponent = 0, sign = 1\<rparr>"
    by (simp add: new_BigNum_canonical_args ToInt32_def)
  have base: "new_BigNum c e s = \<lparr>coefficient = c, exponent = ToInt32 e, sign = s\<rparr>"
    using c s by (rule new_BigNum_canonical_args)
  have m1: "mul \<lparr>coefficient = 1, exponent = 0, sign = 1\<rparr>
              \<lparr>coefficient = c, exponent = ToInt32 e, sign = s\<rparr>
            = \<lparr>coefficient = c, exponent = ToInt32 e, sign = s\<rparr>"
    using c s by (simp add: mul_def new_BigNum_canonical_args ToInt32_idem)
  have m2: "mul \<lparr>coefficient = c, exponent = ToInt32 e, sign = s\<rparr>
              \<lparr>coefficient = c, exponent = ToInt32 e, sign = s\<rparr>
            = \<lparr>coefficient = c * c, exponent = ToInt32 (2 * e), sign = 1\<rparr>"
    using c c2 ss
    by (simp add: mul_def new_BigNum_canonical_args ToInt32_double)
  have m3: "mul \<lparr>coefficient = c, exponent = ToInt32 e, sign = s\<rparr>
              \<lparr>coefficient = c * c, exponent = ToInt32 (2 * e), sign = 1\<rparr>
            = \<lparr>coefficient = c * (c * c), exponent = ToInt32 (3 * e), sign = s\<rparr>"
    using c c2 c3 s
    by (simp add: mul_def new_BigNum_canonical_args ToInt32_triple_left)
  have lhs: "pow \<lparr>coefficient = c, exponent = e, sign = s\<rparr> (Finite 3) p
      = Inr \<lparr>coefficient = c * (c * c), exponent = ToInt32 (3 * e), sign = s\<rparr>"
    by (simp add: pow_three_unfold one base m1 m2 m3)
  have r1: "mul \<lparr>coefficient = c, exponent = e, sign = s\<rparr>
      \<lparr>coefficient = c, exponent = e, sign = s\<rparr>
      = \<lparr>coefficient = c * c, exponent = ToInt32 (2 * e), sign = 1\<rparr>"
    using c c2 ss by (simp add: mul_def new_BigNum_canonical_args)
  have cc: "c * c * c = c * (c * c)" by simp
  have r2: "mul \<lparr>coefficient = c * c, exponent = ToInt32 (2 * e), sign = 1\<rparr>
      \<lparr>coefficient = c, exponent = e, sign = s\<rparr>
      = \<lparr>coefficient = c * (c * c), exponent = ToInt32 (3 * e), sign = s\<rparr>"
    using c c2 c3 s
    by (simp add: mul_def new_BigNum_canonical_args ToInt32_triple_right cc)
  show ?thesis by (simp add: lhs r1 r2)
qed

lemma pow_three_canonical:
  assumes "canonical a"
  shows "pow a (Finite 3) p = Inr (mul (mul a a) a)"
proof (cases "coefficient a = 0")
  case True
  then have "mul (mul a a) a = ZERO" by (simp add: mul_def)
  moreover have "new_BigNum (coefficient a) (exponent a) (sign a) = ZERO"
    using True by (simp add: new_BigNum_zero)
  ultimately show ?thesis
    by (simp add: pow_three_unfold mul_ZERO_right mul_ZERO_left)
next
  case False
  have a: "a = \<lparr>coefficient = coefficient a, exponent = exponent a, sign = sign a\<rparr>"
    by simp
  have "0 < coefficient a" "\<not> 10 dvd coefficient a" "sign a = 1 \<or> sign a = - 1"
    using assms False by (simp_all add: canonical_def)
  from pow_three_record[OF this, of "exponent a" p] show ?thesis
    by (simp only: a [symmetric])
qed

section \<open>Canonical form\<close>

text \<open>
  Claim C3. Every \<open>BigNum\<close> that a construction yields is in canonical form: a zero
  coefficient comes with exponent 0 and sign +1, and a nonzero coefficient is positive
  and not divisible by 10. This holds for the constructor on every triple of arguments
  (also a negative coefficient or an exponent beyond the int32 range), for the shared
  \<open>ZERO\<close>, for every string that parses, and for the result of \<open>add\<close>, \<open>sub\<close>, \<open>mul\<close>,
  \<open>div\<close> and \<open>pow\<close> on any operands.
\<close>

theorem construction_is_canonical:
  "canonical (new_BigNum c e s) \<and> canonical ZERO
   \<and> (\<forall>x. from_string t = Inr x \<longrightarrow> canonical x)
   \<and> canonical (add a b) \<and> canonical (sub a b) \<and> canonical (mul a b)
   \<and> (\<forall>x. div_BigNum a b p = Inr x \<longrightarrow> canonical x)
   \<and> (\<forall>x. pow a n p = Inr x \<longrightarrow> canonical x)"
  using canonical_new_BigNum canonical_ZERO canonical_from_string canonical_add
    canonical_sub canonical_mul canonical_div canonical_pow
  by blast

theorem construction_is_canonical_witness:
  "canonical (new_BigNum (- 1200) (2 ^ 31 + 7) 1)
   \<and> from_string ''1.50'' = Inr \<lparr>coefficient = 15, exponent = - 1, sign = 1\<rparr>
   \<and> canonical \<lparr>coefficient = 15, exponent = - 1, sign = 1\<rparr>
   \<and> div_BigNum \<lparr>coefficient = 1, exponent = 0, sign = 1\<rparr>
         \<lparr>coefficient = 1, exponent = 0, sign = 1\<rparr> 0 = Inr \<lparr>coefficient = 0, exponent = 0, sign = 1\<rparr>
   \<and> canonical \<lparr>coefficient = 0, exponent = 0, sign = 1\<rparr>
   \<and> pow \<lparr>coefficient = 1, exponent = 0, sign = 1\<rparr> (Finite 0) 0
        = Inr \<lparr>coefficient = 1, exponent = 0, sign = 1\<rparr>
   \<and> canonical \<lparr>coefficient = 1, exponent = 0, sign = 1\<rparr>"
proof -
  have p: "from_string ''1.50'' = Inr \<lparr>coefficient = 15, exponent = - 1, sign = 1\<rparr>"
    by (simp add: from_string_def trim_def is_space_def match_numeric_def scan_sign_def
      scan_mantissa_def scan_exponent_def is_digit_def BigInt_of_digits_def digit_val_def
      new_BigNum_def normalize_BigNum_def strip_zeros.simps bigint_rem_def bigint_div_def
      ToInt32_def)
  have d: "div_BigNum \<lparr>coefficient = 1, exponent = 0, sign = 1\<rparr>
         \<lparr>coefficient = 1, exponent = 0, sign = 1\<rparr> 0 = Inr \<lparr>coefficient = 0, exponent = 0, sign = 1\<rparr>"
    by (simp add: div_BigNum_def int_toString_def dec.simps bigint_div_def bigint_rem_def
        new_BigNum_def normalize_BigNum_def)
  have w: "pow \<lparr>coefficient = 1, exponent = 0, sign = 1\<rparr> (Finite 0) 0
        = Inr \<lparr>coefficient = 1, exponent = 0, sign = 1\<rparr>"
    by (subst pow.simps) (simp add: isInteger_def number_value_def new_BigNum_canonical_args ToInt32_def)
  show ?thesis
    using construction_is_canonical [of "- 1200" "2 ^ 31 + 7" 1 "''1.50''"
        "\<lparr>coefficient = 1, exponent = 0, sign = 1\<rparr>" "\<lparr>coefficient = 1, exponent = 0, sign = 1\<rparr>" 0
        "Finite 0"] p d w
    by simp
qed

section \<open>The stored exponent\<close>

text \<open>
  Claim C10, as amended. The constructor reduces the exponent it is given modulo
  \<open>2 ^ 32\<close> into the range from \<open>- 2 ^ 31\<close> up to, not including, \<open>2 ^ 31\<close>; the
  normalization that follows adds one for every trailing decimal zero it strips from
  the coefficient, and stores 0 when the coefficient is 0. So the stored exponent is
  the reduced input exactly when the coefficient is nonzero and not divisible by 10.
\<close>

theorem stored_exponent:
  "- (2 ^ 31) \<le> ToInt32 e \<and> ToInt32 e < 2 ^ 31 \<and> ToInt32 e mod 2 ^ 32 = e mod 2 ^ 32
   \<and> (c \<noteq> 0 \<and> \<not> 10 dvd c \<longrightarrow> exponent (new_BigNum c e s) = ToInt32 e)
   \<and> (c = 0 \<longrightarrow> exponent (new_BigNum c e s) = 0)
   \<and> (c \<noteq> 0 \<longrightarrow> (\<exists>k. exponent (new_BigNum c e s) = ToInt32 e + int k
          \<and> \<bar>c\<bar> = coefficient (new_BigNum c e s) * 10 ^ k))"
proof -
  have "c \<noteq> 0 \<and> \<not> 10 dvd c \<longrightarrow> exponent (new_BigNum c e s) = ToInt32 e"
    by (auto simp: new_BigNum_def normalize_BigNum_def strip_zeros_id Let_def)
  moreover have "c = 0 \<longrightarrow> exponent (new_BigNum c e s) = 0"
    by (simp add: new_BigNum_def normalize_BigNum_def)
  ultimately show ?thesis
    using ToInt32_range[of e] ToInt32_cong[of e] new_BigNum_nonzero[of c e s] by blast
qed

theorem stored_exponent_witness:
  "exponent (new_BigNum 7 (2 ^ 31 + 5) 1) = - 2147483643
   \<and> exponent (new_BigNum 0 (2 ^ 31 + 5) 1) = 0
   \<and> (\<exists>k. exponent (new_BigNum 700 (2 ^ 31 + 5) 1) = - 2147483643 + int k
          \<and> 700 = coefficient (new_BigNum 700 (2 ^ 31 + 5) 1) * 10 ^ k)"
  using stored_exponent [of "2 ^ 31 + 5" 7 1] stored_exponent [of "2 ^ 31 + 5" 0 1]
    stored_exponent [of "2 ^ 31 + 5" 700 1]
  by (simp add: ToInt32_def)

text \<open>
  As claim C10 words it, every stored exponent would be the reduced input. With the
  coefficient 10 and the exponent \<open>2 ^ 31\<close> the stored exponent is one more than the
  reduced input, and with the coefficient 0 it is 0.
\<close>

theorem stored_exponent_counterexample:
  "exponent (new_BigNum 10 (2 ^ 31) 1) = - 2147483647 \<and> ToInt32 (2 ^ 31) = - 2147483648
   \<and> exponent (new_BigNum 0 (2 ^ 31) 1) = 0"
  by (simp add: new_BigNum_def normalize_BigNum_def ToInt32_def strip_zeros.simps
      bigint_rem_def bigint_div_def)

section \<open>Failures of division and exponentiation\<close>

text \<open>
  Claim C4, as amended. \<open>div\<close> fails with "Division by zero" whenever the divisor is
  zero, whatever the dividend; with a nonzero divisor and a zero dividend it returns
  canonical zero; with both nonzero it returns a \<open>BigNum\<close> when the precision is at
  least \<open>- 5\<close>, and fails with a RangeError (the power \<open>10n ** BigInt(precision + 5)\<close>
  has a negative exponent) when the precision is below \<open>- 5\<close>.
\<close>

theorem div_failures:
  "(coefficient b = 0 \<longrightarrow> div_BigNum a b p = Inl DivisionByZero)
   \<and> (coefficient b \<noteq> 0 \<and> coefficient a = 0 \<longrightarrow>
        div_BigNum a b p = Inr \<lparr>coefficient = 0, exponent = 0, sign = 1\<rparr>)
   \<and> (coefficient b \<noteq> 0 \<and> coefficient a \<noteq> 0 \<and> - 5 \<le> p \<longrightarrow> (\<exists>x. div_BigNum a b p = Inr x))
   \<and> (coefficient b \<noteq> 0 \<and> coefficient a \<noteq> 0 \<and> p < - 5 \<longrightarrow> div_BigNum a b p = Inl RangeError)"
  using div_BigNum_returns[of b a p]
  by (auto simp: div_BigNum_def ZERO_eq)

theorem div_failures_witness:
  "div_BigNum \<lparr>coefficient = 1, exponent = 0, sign = 1\<rparr>
      \<lparr>coefficient = 0, exponent = 0, sign = 1\<rparr> 40 = Inl DivisionByZero
   \<and> div_BigNum \<lparr>coefficient = 0, exponent = 0, sign = 1\<rparr>
      \<lparr>coefficient = 1, exponent = 0, sign = 1\<rparr> 40 = Inr \<lparr>coefficient = 0, exponent = 0, sign = 1\<rparr>
   \<and> (\<exists>x. div_BigNum \<lparr>coefficient = 1, exponent = 0, sign = 1\<rparr>
      \<lparr>coefficient = 1, exponent = 0, sign = 1\<rparr> 40 = Inr x)
   \<and> div_BigNum \<lparr>coefficient = 1, exponent = 0, sign = 1\<rparr>
      \<lparr>coefficient = 1, exponent = 0, sign = 1\<rparr> (- 6) = Inl RangeError"
  using
    div_failures [of "\<lparr>coefficient = 0, exponent = 0, sign = 1\<rparr>"
      "\<lparr>coefficient = 1, exponent = 0, sign = 1\<rparr>" 40]
    div_failures [of "\<lparr>coefficient = 1, exponent = 0, sign = 1\<rparr>"
      "\<lparr>coefficient = 0, exponent = 0, sign = 1\<rparr>" 40]
    div_failures [of "\<lparr>coefficient = 1, exponent = 0, sign = 1\<rparr>"
      "\<lparr>coefficient = 1, exponent = 0, sign = 1\<rparr>" 40]
    div_failures [of "\<lparr>coefficient = 1, exponent = 0, sign = 1\<rparr>"
      "\<lparr>coefficient = 1, exponent = 0, sign = 1\<rparr>" "- 6"]
  by simp

text \<open>
  As claim C4 words it, \<open>div\<close> would fail only on a zero divisor. Dividing one by one
  with the precision \<open>- 6\<close> fails.
\<close>

theorem div_failures_counterexample:
  "coefficient \<lparr>coefficient = 1, exponent = 0, sign = 1\<rparr> \<noteq> 0
   \<and> div_BigNum \<lparr>coefficient = 1, exponent = 0, sign = 1\<rparr>
        \<lparr>coefficient = 1, exponent = 0, sign = 1\<rparr> (- 6) = Inl RangeError"
  by (simp add: div_BigNum_def)

text \<open>
  Claim C8. \<open>pow\<close> fails with "pow: exponent must be integer" exactly when its exponent
  is not an integer: a finite non-integer, NaN or an infinity. With an integer
  exponent, positive, zero or negative, it never fails with this error, whatever the
  base and the precision.
\<close>

theorem pow_invalid_exponent:
  "pow a n p = Inl InvalidExponent \<longleftrightarrow> \<not> (\<exists>k::int. n = Finite (of_int k))"
proof -
  have int_iff: "isInteger n \<longleftrightarrow> (\<exists>k::int. n = Finite (of_int k))"
    by (cases n) (auto simp: isInteger_def intro: exI[of _ "\<lfloor>_\<rfloor>"])
  show ?thesis
  proof (cases "isInteger n")
    case False
    then show ?thesis using int_iff by (subst pow.simps) simp
  next
    case True
    have "pow a n p \<noteq> Inl InvalidExponent"
    proof (cases "number_value n < 0")
      case False
      then show ?thesis using True by (subst pow.simps) simp
    next
      case neg: True
      have "0 < number_value (Finite (- number_value n))"
        using neg by (simp add: number_value_def)
      from pow_positive[OF isInteger_neg[OF True] this]
      obtain y where y: "pow a (Finite (- number_value n)) 40 = Inr y" by blast
      have "pow a n p = div_BigNum \<lparr>coefficient = 1, exponent = 0, sign = 1\<rparr> y p"
        using True neg y by (subst pow.simps) (simp add: from_string_one)
      then show ?thesis
        using div_BigNum_errors[of "\<lparr>coefficient = 1, exponent = 0, sign = 1\<rparr>" y p InvalidExponent]
        by auto
    qed
    with True int_iff show ?thesis by simp
  qed
qed

section \<open>Alignment, addition and comparison\<close>

text \<open>
  Claim C1, at the input the claim itself names. \<open>_align\<close> multiplies the coefficient of
  the operand with the smaller exponent by the power of ten and returns the larger
  exponent, so the sum is that of other numbers whenever the exponents differ. The
  texts \<open>1.23e400\<close> and \<open>4.56e399\<close> parse to 123 and 456 with the exponents 398 and 397;
  \<open>add\<close> returns 4683 with the exponent 398, which \<open>toString(4)\<close> renders as
  \<open>4.683e+401\<close>, where the header comment and the claim expect the value of
  \<open>1.686e400\<close>, which is 1686 with the exponent 397. In small numbers, 120 plus 3 comes
  out as 420.
\<close>

theorem add_example_diverges:
  "from_string ''1.23e400'' = Inr \<lparr>coefficient = 123, exponent = 398, sign = 1\<rparr>
   \<and> from_string ''4.56e399'' = Inr \<lparr>coefficient = 456, exponent = 397, sign = 1\<rparr>
   \<and> from_string ''1.686e400'' = Inr \<lparr>coefficient = 1686, exponent = 397, sign = 1\<rparr>
   \<and> add \<lparr>coefficient = 123, exponent = 398, sign = 1\<rparr>
         \<lparr>coefficient = 456, exponent = 397, sign = 1\<rparr>
       = \<lparr>coefficient = 4683, exponent = 398, sign = 1\<rparr>
   \<and> toString \<lparr>coefficient = 4683, exponent = 398, sign = 1\<rparr> 4 = ''4.683e+401''
   \<and> add \<lparr>coefficient = 12, exponent = 1, sign = 1\<rparr>
         \<lparr>coefficient = 3, exponent = 0, sign = 1\<rparr>
       = \<lparr>coefficient = 42, exponent = 1, sign = 1\<rparr>
   \<and> val \<lparr>coefficient = 12, exponent = 1, sign = 1\<rparr> = 120
   \<and> val \<lparr>coefficient = 3, exponent = 0, sign = 1\<rparr> = 3
   \<and> val \<lparr>coefficient = 42, exponent = 1, sign = 1\<rparr> = 420"
proof -
  have a: "from_string ''1.23e400'' = Inr \<lparr>coefficient = 123, exponent = 398, sign = 1\<rparr>"
    by (simp add: parse_eval)
  have b: "from_string ''4.56e399'' = Inr \<lparr>coefficient = 456, exponent = 397, sign = 1\<rparr>"
    by (simp add: parse_eval)
  have c: "from_string ''1.686e400'' = Inr \<lparr>coefficient = 1686, exponent = 397, sign = 1\<rparr>"
    by (simp add: parse_eval)
  have s: "add \<lparr>coefficient = 123, exponent = 398, sign = 1\<rparr>
         \<lparr>coefficient = 456, exponent = 397, sign = 1\<rparr>
       = \<lparr>coefficient = 4683, exponent = 398, sign = 1\<rparr>"
    by (simp add: add_def align_def new_BigNum_canonical_args ToInt32_def)
  have t: "toString \<lparr>coefficient = 4683, exponent = 398, sign = 1\<rparr> 4 = ''4.683e+401''"
    by (simp add: toString_def int_toString_def dec.simps digit_char_def slice_from_def
        slice_index_def)
  have u: "add \<lparr>coefficient = 12, exponent = 1, sign = 1\<rparr>
         \<lparr>coefficient = 3, exponent = 0, sign = 1\<rparr>
       = \<lparr>coefficient = 42, exponent = 1, sign = 1\<rparr>"
    by (simp add: add_def align_def new_BigNum_canonical_args ToInt32_def)
  have v: "val \<lparr>coefficient = 12, exponent = 1, sign = 1\<rparr> = 120"
    "val \<lparr>coefficient = 3, exponent = 0, sign = 1\<rparr> = 3"
    "val \<lparr>coefficient = 42, exponent = 1, sign = 1\<rparr> = 420"
    by (simp_all add: val_def)
  from a b c s t u v show ?thesis by blast
qed

text \<open>
  Claim C2, at two inputs. With equal signs \<open>cmp\<close> compares the coefficients that
  \<open>_align\<close> returns, so 20 compares as less than 3. The aligned coefficients carry
  their signs already, and \<open>cmp\<close> negates the result once more when the sign is
  negative, so \<open>- 2\<close> compares as less than \<open>- 3\<close>.
\<close>

theorem cmp_examples_diverge:
  "from_string ''20'' = Inr \<lparr>coefficient = 2, exponent = 1, sign = 1\<rparr>
   \<and> from_string ''3'' = Inr \<lparr>coefficient = 3, exponent = 0, sign = 1\<rparr>
   \<and> cmp \<lparr>coefficient = 2, exponent = 1, sign = 1\<rparr> \<lparr>coefficient = 3, exponent = 0, sign = 1\<rparr> = - 1
   \<and> val \<lparr>coefficient = 2, exponent = 1, sign = 1\<rparr> > val \<lparr>coefficient = 3, exponent = 0, sign = 1\<rparr>
   \<and> from_string ''-2'' = Inr \<lparr>coefficient = 2, exponent = 0, sign = - 1\<rparr>
   \<and> from_string ''-3'' = Inr \<lparr>coefficient = 3, exponent = 0, sign = - 1\<rparr>
   \<and> cmp \<lparr>coefficient = 2, exponent = 0, sign = - 1\<rparr> \<lparr>coefficient = 3, exponent = 0, sign = - 1\<rparr> = - 1
   \<and> val \<lparr>coefficient = 2, exponent = 0, sign = - 1\<rparr> > val \<lparr>coefficient = 3, exponent = 0, sign = - 1\<rparr>"
proof -
  have a: "from_string ''20'' = Inr \<lparr>coefficient = 2, exponent = 1, sign = 1\<rparr>"
    by (simp add: from_string_def trim_def is_space_def match_numeric_def scan_sign_def
      scan_mantissa_def scan_exponent_def is_digit_def BigInt_of_digits_def digit_val_def
      new_BigNum_def normalize_BigNum_def strip_zeros.simps bigint_rem_def bigint_div_def
      ToInt32_def)
  have b: "from_string ''3'' = Inr \<lparr>coefficient = 3, exponent = 0, sign = 1\<rparr>"
    by (simp add: parse_eval)
  have c: "from_string ''-2'' = Inr \<lparr>coefficient = 2, exponent = 0, sign = - 1\<rparr>"
    by (simp add: parse_eval)
  have d: "from_string ''-3'' = Inr \<lparr>coefficient = 3, exponent = 0, sign = - 1\<rparr>"
    by (simp add: parse_eval)
  have e: "cmp \<lparr>coefficient = 2, exponent = 1, sign = 1\<rparr> \<lparr>coefficient = 3, exponent = 0, sign = 1\<rparr> = - 1"
    by (simp add: cmp_def align_def)
  have f: "cmp \<lparr>coefficient = 2, exponent = 0, sign = - 1\<rparr> \<lparr>coefficient = 3, exponent = 0, sign = - 1\<rparr> = - 1"
    by (simp add: cmp_def align_def)
  have g: "val \<lparr>coefficient = 2, exponent = 1, sign = 1\<rparr> > val \<lparr>coefficient = 3, exponent = 0, sign = 1\<rparr>"
    by (simp add: val_def)
  have h: "val \<lparr>coefficient = 2, exponent = 0, sign = - 1\<rparr> > val \<lparr>coefficient = 3, exponent = 0, sign = - 1\<rparr>"
    by (simp add: val_def)
  from a b c d e f g h show ?thesis by blast
qed

section \<open>Algebraic laws\<close>

text \<open>
  Claim C9, at an input where the identity fails. The text \<open>10e2147483647\<close> parses to
  the canonical \<open>BigNum\<close> with the coefficient 1 and the exponent \<open>2 ^ 31\<close>, which the
  normalization reaches by stripping a zero after the constructor's reduction to int32.
  Line 119 of \<open>add\<close> returns a copy of this operand when the other one is zero, and
  builds the copy with the constructor, which reduces the exponent once more: the sum
  with zero has the exponent \<open>- 2 ^ 31\<close>, a smaller number than the operand, where the
  header comment calls addition exact and the claim requires the operand itself. The
  other half of the claim holds at this input: adding the negation (the sign flipped,
  the coefficient and the exponent kept) gives canonical zero.
\<close>

theorem add_zero_diverges:
  "from_string ''10e2147483647'' = Inr \<lparr>coefficient = 1, exponent = 2147483648, sign = 1\<rparr>
   \<and> canonical \<lparr>coefficient = 1, exponent = 2147483648, sign = 1\<rparr>
   \<and> add \<lparr>coefficient = 1, exponent = 2147483648, sign = 1\<rparr> ZERO
       = \<lparr>coefficient = 1, exponent = - 2147483648, sign = 1\<rparr>
   \<and> val \<lparr>coefficient = 1, exponent = - 2147483648, sign = 1\<rparr>
       < val \<lparr>coefficient = 1, exponent = 2147483648, sign = 1\<rparr>
   \<and> add \<lparr>coefficient = 1, exponent = 2147483648, sign = 1\<rparr>
         (negate \<lparr>coefficient = 1, exponent = 2147483648, sign = 1\<rparr>)
       = \<lparr>coefficient = 0, exponent = 0, sign = 1\<rparr>"
proof -
  have a: "from_string ''10e2147483647'' = Inr \<lparr>coefficient = 1, exponent = 2147483648, sign = 1\<rparr>"
    by (simp add: from_string_def trim_def is_space_def match_numeric_def scan_sign_def
      scan_mantissa_def scan_exponent_def is_digit_def BigInt_of_digits_def digit_val_def
      parseInt_def new_BigNum_def normalize_BigNum_def strip_zeros.simps bigint_rem_def
      bigint_div_def ToInt32_def)
  have b: "canonical \<lparr>coefficient = 1, exponent = 2147483648, sign = 1\<rparr>"
    by (simp add: canonical_def)
  have c: "add \<lparr>coefficient = 1, exponent = 2147483648, sign = 1\<rparr> ZERO
       = \<lparr>coefficient = 1, exponent = - 2147483648, sign = 1\<rparr>"
    by (simp add: add_def ZERO_eq new_BigNum_canonical_args ToInt32_def)
  have d: "val \<lparr>coefficient = 1, exponent = - 2147483648, sign = 1\<rparr>
       < val \<lparr>coefficient = 1, exponent = 2147483648, sign = 1\<rparr>"
    by (rule val_wrapped_exponent) simp
  have e: "add \<lparr>coefficient = 1, exponent = 2147483648, sign = 1\<rparr>
         (negate \<lparr>coefficient = 1, exponent = 2147483648, sign = 1\<rparr>)
       = \<lparr>coefficient = 0, exponent = 0, sign = 1\<rparr>"
    by (simp only: add_negate ZERO_eq)
  from a b c d e show ?thesis by (intro conjI)
qed

text \<open>
  Claim C7. For every canonical \<open>BigNum\<close> \<open>a\<close> of either sign, \<open>a.pow(3)\<close> returns
  the same triple as \<open>a.mul(a).mul(a)\<close>, and \<open>a.pow(0)\<close> returns one. Both sides of
  the first equation reduce the exponent modulo \<open>2 ^ 32\<close> in the same way, so it also
  holds where the exponents wrap.
\<close>

theorem power_consistency:
  "canonical a \<Longrightarrow>
     pow a (Finite 3) p = Inr (mul (mul a a) a)
     \<and> pow a (Finite 0) p = Inr \<lparr>coefficient = 1, exponent = 0, sign = 1\<rparr>"
  using pow_three_canonical[of a p] pow_zero[of a p] by simp

theorem power_consistency_witness:
  "canonical \<lparr>coefficient = 5, exponent = 2147483648, sign = - 1\<rparr>
   \<and> pow \<lparr>coefficient = 5, exponent = 2147483648, sign = - 1\<rparr> (Finite 3) 40
       = Inr \<lparr>coefficient = 125, exponent = - 2147483648, sign = - 1\<rparr>
   \<and> mul (mul \<lparr>coefficient = 5, exponent = 2147483648, sign = - 1\<rparr>
              \<lparr>coefficient = 5, exponent = 2147483648, sign = - 1\<rparr>)
         \<lparr>coefficient = 5, exponent = 2147483648, sign = - 1\<rparr>
       = \<lparr>coefficient = 125, exponent = - 2147483648, sign = - 1\<rparr>
   \<and> pow \<lparr>coefficient = 5, exponent = 2147483648, sign = - 1\<rparr> (Finite 0) 40
       = Inr \<lparr>coefficient = 1, exponent = 0, sign = 1\<rparr>"
proof -
  have c: "canonical \<lparr>coefficient = 5, exponent = 2147483648, sign = - 1\<rparr>"
    by (simp add: canonical_def)
  have m: "mul (mul \<lparr>coefficient = 5, exponent = 2147483648, sign = - 1\<rparr>
              \<lparr>coefficient = 5, exponent = 2147483648, sign = - 1\<rparr>)
         \<lparr>coefficient = 5, exponent = 2147483648, sign = - 1\<rparr>
       = \<lparr>coefficient = 125, exponent = - 2147483648, sign = - 1\<rparr>"
    by (simp add: mul_def new_BigNum_canonical_args ToInt32_def)
  from power_consistency [OF c, of 40] c m show ?thesis by simp
qed

section \<open>The accepted grammar\<close>

lemma is_digit_simps [simp]:
  "\<not> is_digit CHR ''.''" "\<not> is_digit CHR ''e''" "\<not> is_digit CHR ''E''"
  "\<not> is_digit CHR ''+''" "\<not> is_digit CHR ''-''"
  by (simp_all add: is_digit_def)

lemma span_digits:
  assumes "list_all is_digit a" and "r = [] \<or> \<not> is_digit (hd r)"
  shows "takeWhile is_digit (a @ r) = a" and "dropWhile is_digit (a @ r) = r"
proof -
  have a: "\<And>x. x \<in> set a \<Longrightarrow> is_digit x" using assms(1) by (simp add: list_all_iff)
  have t: "takeWhile is_digit r = []" and d: "dropWhile is_digit r = r"
    using assms(2) by (cases r; simp)+
  show "takeWhile is_digit (a @ r) = a" using a t by (simp add: takeWhile_append2)
  show "dropWhile is_digit (a @ r) = r" using a d by (simp add: dropWhile_append2)
qed

lemma span_digits_split:
  "s = takeWhile is_digit s @ dropWhile is_digit s \<and> list_all is_digit (takeWhile is_digit s)
   \<and> (dropWhile is_digit s = [] \<or> \<not> is_digit (hd (dropWhile is_digit s)))"
proof -
  have "list_all is_digit (takeWhile is_digit s)"
    by (auto simp: list_all_iff dest: set_takeWhileD)
  moreover have "dropWhile is_digit s = [] \<or> \<not> is_digit (hd (dropWhile is_digit s))"
    using hd_dropWhile[of is_digit s] by blast
  ultimately show ?thesis by simp
qed

lemma scan_sign_sound:
  "scan_sign s = (m, r) \<Longrightarrow> \<exists>g. s = g @ r \<and> sign_text g"
  by (cases s) (auto simp: scan_sign_def sign_text_def split: if_splits)

lemma scan_sign_complete:
  assumes "sign_text g" and "r = [] \<or> (hd r \<noteq> CHR ''+'' \<and> hd r \<noteq> CHR ''-'')"
  shows "\<exists>m. scan_sign (g @ r) = (m, r)"
  using assms by (cases r) (auto simp: scan_sign_def sign_text_def)

lemma scan_mantissa_sound:
  assumes "scan_mantissa s = Some (m, r)"
  shows "s = m @ r \<and> mantissa_text m"
proof (cases "takeWhile is_digit s = []")
  case False
  note sp = span_digits_split[of s]
  show ?thesis
  proof (cases "dropWhile is_digit s")
    case Nil
    with assms False sp show ?thesis
      by (auto simp: scan_mantissa_def mantissa_text_def digits_def Let_def)
  next
    case (Cons c r')
    show ?thesis
    proof (cases "c = CHR ''.''")
      case True
      note sp' = span_digits_split[of r']
      have m: "m = takeWhile is_digit s @ ''.'' @ takeWhile is_digit r'"
        and r: "r = dropWhile is_digit r'"
        using assms False Cons True by (simp_all add: scan_mantissa_def Let_def)
      have "s = takeWhile is_digit s @ CHR ''.'' # r'" using sp Cons True by simp
      also have "r' = takeWhile is_digit r' @ dropWhile is_digit r'" using sp' by simp
      finally have "s = m @ r" using m r by simp
      moreover have "mantissa_text m"
        unfolding mantissa_text_def using m sp sp' False by blast
      ultimately show ?thesis by simp
    next
      case F: False
      with assms False Cons sp show ?thesis
        by (auto simp: scan_mantissa_def mantissa_text_def digits_def Let_def)
    qed
  qed
next
  case True
  then obtain r' where s: "s = CHR ''.'' # r'" and ne: "takeWhile is_digit r' \<noteq> []"
    and m: "m = CHR ''.'' # takeWhile is_digit r'" and r: "r = dropWhile is_digit r'"
    using assms by (cases s) (auto simp: scan_mantissa_def Let_def split: if_splits)
  note sp' = span_digits_split[of r']
  have "s = m @ r" using s m r sp' by simp
  moreover have "m = [] @ ''.'' @ takeWhile is_digit r'" using m by simp
  moreover have "list_all is_digit ([] :: string)" by simp
  ultimately have "mantissa_text m"
    unfolding mantissa_text_def using sp' ne by blast
  moreover note \<open>s = m @ r\<close>
  ultimately show ?thesis by simp
qed

lemma exponent_text_head:
  "exponent_text e \<Longrightarrow> e = [] \<or> hd e = CHR ''e'' \<or> hd e = CHR ''E''"
  by (auto simp: exponent_text_def)

lemma scan_mantissa_complete:
  assumes "mantissa_text m" and "r = [] \<or> hd r = CHR ''e'' \<or> hd r = CHR ''E''"
  shows "scan_mantissa (m @ r) = Some (m, r)"
proof -
  have nd: "r = [] \<or> \<not> is_digit (hd r)" and np: "r = [] \<or> hd r \<noteq> CHR ''.''"
    using assms(2) by auto
  from assms(1) consider (plain) "digits m"
    | (point) a b where "m = a @ ''.'' @ b" "list_all is_digit a" "list_all is_digit b"
        "a \<noteq> [] \<or> b \<noteq> []"
    unfolding mantissa_text_def by blast
  then show ?thesis
  proof cases
    case plain
    then have m: "m \<noteq> []" "list_all is_digit m" by (simp_all add: digits_def)
    note t = span_digits[OF m(2) nd]
    show ?thesis using m(1) np
      by (auto simp: scan_mantissa_def Let_def t split: list.splits)
  next
    case point
    have b: "takeWhile is_digit (b @ r) = b" "dropWhile is_digit (b @ r) = r"
      using span_digits[OF point(3) nd] by simp_all
    have "(CHR ''.'' # b @ r) = [] \<or> \<not> is_digit (hd (CHR ''.'' # b @ r))" by simp
    from span_digits[OF point(2) this]
    have a: "takeWhile is_digit (m @ r) = a" "dropWhile is_digit (m @ r) = CHR ''.'' # b @ r"
      using point(1) by simp_all
    show ?thesis
    proof (cases "a = []")
      case False
      then show ?thesis using a b point(1) by (simp add: scan_mantissa_def Let_def)
    next
      case True
      with point(4) have "b \<noteq> []" by simp
      then show ?thesis using True a b point(1) by (simp add: scan_mantissa_def Let_def)
    qed
  qed
qed

lemma scan_exponent_sound:
  assumes "scan_exponent s = Some m"
  shows "exponent_text s"
proof (cases s)
  case Nil
  then show ?thesis by (simp add: exponent_text_def)
next
  case (Cons c r)
  obtain sg r' where ss: "scan_sign r = (sg, r')" by (cases "scan_sign r")
  from assms Cons ss have c: "c = CHR ''e'' \<or> c = CHR ''E''"
    and d: "takeWhile is_digit r' \<noteq> []" "dropWhile is_digit r' = []"
    by (auto simp: scan_exponent_def Let_def split: if_splits)
  from scan_sign_sound[OF ss] obtain g where g: "r = g @ r'" "sign_text g" by blast
  have "r' = takeWhile is_digit r'" using span_digits_split[of r'] d(2) by simp
  then have "digits r'" using span_digits_split[of r'] d(1) by (simp add: digits_def)
  moreover have "s = [c] @ g @ r'" using Cons g(1) by simp
  ultimately show ?thesis unfolding exponent_text_def using c g(2) by blast
qed

lemma scan_exponent_complete:
  assumes "exponent_text s"
  shows "\<exists>m. scan_exponent s = Some m"
proof (cases "s = []")
  case True
  then show ?thesis by (simp add: scan_exponent_def)
next
  case False
  with assms obtain m g d where s: "s = m @ g @ d" and m: "m = ''e'' \<or> m = ''E''"
    and g: "sign_text g" and d: "digits d"
    unfolding exponent_text_def by blast
  have dd: "d \<noteq> []" "list_all is_digit d" using d by (simp_all add: digits_def)
  then have "is_digit (hd d)" by (cases d) simp_all
  then have "d = [] \<or> (hd d \<noteq> CHR ''+'' \<and> hd d \<noteq> CHR ''-'')" by auto
  from scan_sign_complete[OF g this] obtain sg where sg: "scan_sign (g @ d) = (sg, d)" ..
  have t: "takeWhile is_digit d = d" "dropWhile is_digit d = []"
    using span_digits[OF dd(2), of "[]"] by simp_all
  have "\<forall>x\<in>set d. is_digit x" using dd(2) by (simp add: list_all_iff)
  then show ?thesis using s m sg dd(1) by (auto simp: scan_exponent_def Let_def t)
qed

lemma mantissa_text_head:
  assumes "mantissa_text m"
  shows "m \<noteq> [] \<and> (is_digit (hd m) \<or> hd m = CHR ''.'')"
proof -
  from assms consider (plain) "digits m"
    | (point) a b where "m = a @ ''.'' @ b" "list_all is_digit a"
    unfolding mantissa_text_def by blast
  then show ?thesis
  proof cases
    case plain
    then show ?thesis by (cases m) (simp_all add: digits_def)
  next
    case point
    then show ?thesis by (cases a) simp_all
  qed
qed

lemma match_numeric_iff: "(\<exists>m. match_numeric s = Some m) \<longleftrightarrow> numeric_text s"
proof
  assume "\<exists>m. match_numeric s = Some m"
  then obtain m1 m2 m3 where m: "match_numeric s = Some (m1, m2, m3)" by auto
  obtain sg r1 where ss: "scan_sign s = (sg, r1)" by (cases "scan_sign s")
  from m ss obtain r2 where sm: "scan_mantissa r1 = Some (m2, r2)"
    and se: "scan_exponent r2 = Some m3"
    by (auto simp: match_numeric_def split: option.splits)
  from scan_sign_sound[OF ss] obtain g where g: "s = g @ r1" "sign_text g" by blast
  from scan_mantissa_sound[OF sm] have r1: "r1 = m2 @ r2" "mantissa_text m2" by simp_all
  from scan_exponent_sound[OF se] have "exponent_text r2" .
  with g r1 show "numeric_text s" unfolding numeric_text_def by blast
next
  assume "numeric_text s"
  then obtain g m e where s: "s = g @ m @ e" and g: "sign_text g" and m: "mantissa_text m"
    and e: "exponent_text e"
    unfolding numeric_text_def by blast
  have mh: "m \<noteq> [] \<and> (is_digit (hd m) \<or> hd m = CHR ''.'')"
    using mantissa_text_head[OF m] .
  then have "m @ e = [] \<or> (hd (m @ e) \<noteq> CHR ''+'' \<and> hd (m @ e) \<noteq> CHR ''-'')"
    by (auto simp: hd_append)
  from scan_sign_complete[OF g this] obtain sg where sg: "scan_sign (g @ m @ e) = (sg, m @ e)" ..
  from scan_mantissa_complete[OF m exponent_text_head[OF e]]
  have sm: "scan_mantissa (m @ e) = Some (m, e)" .
  from scan_exponent_complete[OF e] obtain m3 where "scan_exponent e = Some m3" ..
  with s sg sm show "\<exists>m. match_numeric s = Some m" by (simp add: match_numeric_def)
qed

lemma numeric_text_nonempty: "numeric_text s \<Longrightarrow> s \<noteq> []"
  by (auto simp: numeric_text_def dest: mantissa_text_head)

lemma from_string_empty: "trim x = [] \<Longrightarrow> from_string x = Inl EmptyInput"
  by (simp add: from_string_def)

lemma from_string_invalid:
  "trim x \<noteq> [] \<Longrightarrow> \<not> numeric_text (trim x) \<Longrightarrow> from_string x = Inl InvalidFormat"
  using match_numeric_iff[of "trim x"]
  by (auto simp: from_string_def Let_def split: option.splits)

lemma from_string_returns: "numeric_text (trim x) \<Longrightarrow> \<exists>d. from_string x = Inr d"
  using numeric_text_nonempty[of "trim x"] match_numeric_iff[of "trim x"]
  by (auto simp: from_string_def Let_def split: option.splits)

text \<open>
  Claim C5. After trimming, \<open>from\<close> returns a \<open>BigNum\<close> exactly for the texts of the
  grammar: an optional sign, a mantissa, an optional exponent. A mantissa is a run of
  digits, or digits and a point with at least one digit on one side of the point, so
  \<open>5.\<close> and \<open>.5\<close> are mantissas and a lone point is not. It fails with "Cannot parse empty
  string" exactly when nothing is left after trimming, and with "Invalid numeric
  string" on every other text outside the grammar.
\<close>

theorem parse_accepts_grammar:
  "((\<exists>d. from_string x = Inr d) \<longleftrightarrow> numeric_text (trim x))
   \<and> (from_string x = Inl EmptyInput \<longleftrightarrow> trim x = [])
   \<and> (from_string x = Inl InvalidFormat \<longleftrightarrow> trim x \<noteq> [] \<and> \<not> numeric_text (trim x))"
proof (cases "trim x = []")
  case True
  then show ?thesis
    using from_string_empty[of x] numeric_text_nonempty[of "trim x"] by auto
next
  case False
  show ?thesis
  proof (cases "numeric_text (trim x)")
    case True
    with from_string_returns[of x] False show ?thesis by auto
  next
    case nt: False
    with from_string_invalid[of x] False show ?thesis by auto
  qed
qed

theorem parse_accepts_grammar_witness:
  "from_string '' -5.e3 '' = Inr \<lparr>coefficient = 5, exponent = 3, sign = - 1\<rparr>
   \<and> numeric_text ''-5.e3''
   \<and> from_string ''.5'' = Inr \<lparr>coefficient = 5, exponent = - 1, sign = 1\<rparr>
   \<and> numeric_text ''.5''
   \<and> from_string ''   '' = Inl EmptyInput
   \<and> from_string ''.'' = Inl InvalidFormat \<and> \<not> numeric_text ''.''
   \<and> from_string ''1e'' = Inl InvalidFormat \<and> \<not> numeric_text ''1e''"
proof -
  have a: "from_string '' -5.e3 '' = Inr \<lparr>coefficient = 5, exponent = 3, sign = - 1\<rparr>"
    and b: "from_string ''.5'' = Inr \<lparr>coefficient = 5, exponent = - 1, sign = 1\<rparr>"
    and c: "from_string ''   '' = Inl EmptyInput"
    and d: "from_string ''.'' = Inl InvalidFormat"
    and e: "from_string ''1e'' = Inl InvalidFormat"
    by (simp_all add: parse_eval)
  have t: "trim '' -5.e3 '' = ''-5.e3''" "trim ''.5'' = ''.5''" "trim ''.'' = ''.''"
    "trim ''1e'' = ''1e''"
    by (simp_all add: trim_def is_space_def)
  from parse_accepts_grammar [of "'' -5.e3 ''"] parse_accepts_grammar [of "''.5''"]
    parse_accepts_grammar [of "''.''"] parse_accepts_grammar [of "''1e''"]
    a b c d e t
  show ?thesis by simp
qed

section \<open>Fixed-point text\<close>

lemma dec_small: "n < 10 \<Longrightarrow> dec n = [digit_char n]"
  by (subst dec.simps) simp

lemma dec_large: "10 \<le> n \<Longrightarrow> dec n = dec (n div 10) @ [digit_char (n mod 10)]"
  by (subst dec.simps) simp

lemma length_fixw [simp]: "length (fixw k n) = k"
  by (induction k arbitrary: n) simp_all

lemma dec_nonempty [simp]: "dec n \<noteq> []"
  by (subst dec.simps) simp

lemma fixw_zero: "fixw k 0 = replicate k CHR ''0''"
  by (induction k) (simp_all add: digit_char_def replicate_append_same)

lemma dec_split: "10 ^ k \<le> n \<Longrightarrow> dec n = dec (n div 10 ^ k) @ fixw k n"
proof (induction k arbitrary: n)
  case 0
  then show ?case by simp
next
  case (Suc k)
  then have n10: "10 \<le> n"
    using one_le_power[of "10::nat" k] by (simp add: order_trans [of 10 "10 * 10 ^ k" n])
  have "10 ^ k \<le> n div 10" using Suc.prems by (simp add: less_eq_div_iff_mult_less_eq)
  from Suc.IH[OF this] have "dec (n div 10) = dec (n div 10 div 10 ^ k) @ fixw k (n div 10)" .
  moreover have "n div 10 div 10 ^ k = n div 10 ^ Suc k" by (simp add: div_mult2_eq)
  ultimately show ?case using n10 by (simp add: dec_large)
qed

lemma length_dec_le: "0 < k \<Longrightarrow> length (dec n) \<le> k \<longleftrightarrow> n < 10 ^ k"
proof (induction n arbitrary: k rule: dec.induct)
  case (1 n)
  show ?case
  proof (cases "n < 10")
    case True
    have "(10::nat) \<le> 10 ^ k" using "1.prems" by (cases k) simp_all
    with True have "n < 10 ^ k" by simp
    with True "1.prems" show ?thesis by (simp add: dec_small)
  next
    case False
    then have l: "length (dec n) = Suc (length (dec (n div 10)))" by (simp add: dec_large)
    show ?thesis
    proof (cases k)
      case 0
      with "1.prems" show ?thesis by simp
    next
      case (Suc j)
      show ?thesis
      proof (cases "j = 0")
        case True
        with Suc False l show ?thesis
          using dec_nonempty[of "n div 10"] by (cases "dec (n div 10)") simp_all
      next
        case j: False
        then have "length (dec (n div 10)) \<le> j \<longleftrightarrow> n div 10 < 10 ^ j"
          using "1.IH"[OF False, of j] by simp
        moreover have "n div 10 < 10 ^ j \<longleftrightarrow> n < 10 ^ Suc j"
          by (simp add: div_less_iff_less_mult mult.commute)
        ultimately show ?thesis using Suc l by simp
      qed
    qed
  qed
qed

lemma pad_dec:
  "0 < n \<Longrightarrow> n < 10 ^ k \<Longrightarrow> replicate (k - length (dec n)) CHR ''0'' @ dec n = fixw k n"
proof (induction k arbitrary: n)
  case 0
  then show ?case by simp
next
  case (Suc k)
  show ?case
  proof (cases "n < 10")
    case True
    then show ?thesis by (simp add: dec_small fixw_zero)
  next
    case False
    then have "0 < n div 10" by (simp add: div_greater_zero_iff)
    moreover have "n div 10 < 10 ^ k"
      using Suc.prems by (simp add: div_less_iff_less_mult mult.commute)
    ultimately show ?thesis using Suc.IH[of "n div 10"] False by (simp add: dec_large)
  qed
qed

lemma dec_shift: "0 < n \<Longrightarrow> dec (n * 10 ^ k) = dec n @ replicate k CHR ''0''"
proof (induction k)
  case 0
  then show ?case by simp
next
  case (Suc k)
  have "10 \<le> n * 10 ^ Suc k" using Suc.prems by simp
  then have "dec (n * 10 ^ Suc k) = dec (n * 10 ^ Suc k div 10) @ [digit_char (n * 10 ^ Suc k mod 10)]"
    by (rule dec_large)
  also have "n * 10 ^ Suc k div 10 = n * 10 ^ k" by simp
  also have "n * 10 ^ Suc k mod 10 = 0" by simp
  finally show ?case using Suc by (simp add: digit_char_def replicate_append_same)
qed

lemma fixw_split: "fixw (a + b) n = fixw a (n div 10 ^ b) @ fixw b n"
proof (induction b arbitrary: n)
  case 0
  then show ?case by simp
next
  case (Suc b)
  have "n div 10 div 10 ^ b = n div 10 ^ Suc b" by (simp add: div_mult2_eq)
  with Suc[of "n div 10"] show ?case by simp
qed

lemma fixw_shift_zero: "fixw j (m * 10 ^ j) = replicate j CHR ''0''"
proof (induction j)
  case 0
  then show ?case by simp
next
  case (Suc j)
  have "m * 10 ^ Suc j div 10 = m * 10 ^ j" by simp
  moreover have "m * 10 ^ Suc j mod 10 = 0" by simp
  ultimately show ?case using Suc by (simp add: digit_char_def replicate_append_same)
qed

lemma take_fixw: "d \<le> k \<Longrightarrow> take d (fixw k n) = fixw d (n div 10 ^ (k - d))"
  using fixw_split[of d "k - d" n] by simp

lemma fixw_append_zeros: "fixw k n @ replicate j CHR ''0'' = fixw (k + j) (n * 10 ^ j)"
  using fixw_split[of k j "n * 10 ^ j"] by (simp add: fixw_shift_zero)

lemma repeat_zero: "0 \<le> n \<Longrightarrow> repeat ''0'' n = Inr (replicate (nat n) CHR ''0'')"
proof -
  have "concat (replicate k ''0'') = replicate k CHR ''0''" for k
    by (induction k) simp_all
  then show "0 \<le> n \<Longrightarrow> repeat ''0'' n = Inr (replicate (nat n) CHR ''0'')"
    by (simp add: repeat_def)
qed

lemma slice_prefix: "0 \<le> i \<Longrightarrow> slice s 0 i = take (nat i) s"
  by (simp add: slice_def slice_index_def min_def)

lemma slice_from_nonneg: "0 \<le> i \<Longrightarrow> slice_from s i = drop (nat i) s"
  by (simp add: slice_from_def slice_index_def min_def)

lemma int_toString_pos: "0 < c \<Longrightarrow> int_toString c = dec (nat c)"
  by (simp add: int_toString_def)

lemma toFixed_zero:
  "coefficient x = 0 \<Longrightarrow> 0 \<le> d \<Longrightarrow> toFixed x d = Inr (''0.'' @ replicate (nat d) CHR ''0'')"
  by (simp add: toFixed_def repeat_zero)

lemma toFixed_nonneg_exponent:
  assumes "0 < coefficient x" and "0 \<le> exponent x" and "0 \<le> d"
  shows "toFixed x d =
    Inr ((if sign x < 0 then ''-'' else []) @ dec (nat (coefficient x))
         @ replicate (nat (exponent x)) CHR ''0'' @ ''.'' @ replicate (nat d) CHR ''0'')"
  using assms by (simp add: toFixed_def repeat_zero int_toString_pos Let_def)

lemma toFixed_point_inside:
  assumes "0 < coefficient x" and "exponent x < 0" and "0 \<le> d"
    and "nat (- exponent x) < length (dec (nat (coefficient x)))"
  shows "toFixed x d =
    Inr ((if sign x < 0 then ''-'' else [])
         @ take (length (dec (nat (coefficient x))) - nat (- exponent x)) (dec (nat (coefficient x)))
         @ ''.''
         @ take (nat d)
             (drop (length (dec (nat (coefficient x))) - nat (- exponent x))
                (dec (nat (coefficient x)))
              @ replicate (nat d - nat (- exponent x)) CHR ''0''))"
proof -
  define cs where "cs = dec (nat (coefficient x))"
  define a where "a = nat (- exponent x)"
  have e: "exponent x = - int a" using assms(2) by (simp add: a_def)
  have al: "a < length cs" using assms(4) by (simp add: a_def cs_def)
  have a0: "0 < a" using assms(2) by (simp add: a_def)
  have s1: "slice cs 0 (int (length cs) - int a) = take (length cs - a) cs"
    using al by (simp add: slice_prefix nat_diff_distrib)
  have s2: "slice_from cs (int (length cs) - int a) = drop (length cs - a) cs"
    using al by (simp add: slice_from_nonneg nat_diff_distrib)
  have r: "repeat ''0'' (max 0 (d - int a)) = Inr (replicate (nat d - a) CHR ''0'')"
    using repeat_zero[of "max 0 (d - int a)"] by simp
  have "toFixed x d =
    Inr ((if sign x < 0 then ''-'' else []) @ take (length cs - a) cs @ ''.''
         @ take (nat d) (drop (length cs - a) cs @ replicate (nat d - a) CHR ''0''))"
    using assms(1,3) al a0
    by (simp add: toFixed_def int_toString_pos cs_def [symmetric] e r s1 s2 slice_prefix
        Let_def)
  then show ?thesis by (simp add: cs_def a_def)
qed

lemma toFixed_point_left:
  assumes "0 < coefficient x" and "exponent x < 0" and "0 \<le> d"
    and "length (dec (nat (coefficient x))) \<le> nat (- exponent x)"
  shows "toFixed x d =
    Inr ((if sign x < 0 then ''-'' else []) @ ''0.''
         @ take (nat d)
             (replicate (nat (- exponent x) - length (dec (nat (coefficient x)))) CHR ''0''
              @ dec (nat (coefficient x))
              @ replicate (nat d - nat (- exponent x)) CHR ''0''))"
proof -
  define cs where "cs = dec (nat (coefficient x))"
  define a where "a = nat (- exponent x)"
  have e: "exponent x = - int a" using assms(2) by (simp add: a_def)
  have al: "length cs \<le> a" using assms(4) by (simp add: a_def cs_def)
  have r1: "repeat ''0'' (int a - int (length cs)) = Inr (replicate (a - length cs) CHR ''0'')"
    using repeat_zero[of "int a - int (length cs)"] al by (simp add: nat_diff_distrib)
  have a0: "0 < a" using assms(2) by (simp add: a_def)
  have r2: "repeat ''0'' (max 0 (d - int a)) = Inr (replicate (nat d - a) CHR ''0'')"
    using repeat_zero[of "max 0 (d - int a)"] by simp
  have "toFixed x d =
    Inr ((if sign x < 0 then ''-'' else []) @ ''0.''
         @ take (nat d) (replicate (a - length cs) CHR ''0'' @ cs @ replicate (nat d - a) CHR ''0''))"
    using assms(1,3) al a0
    by (simp add: toFixed_def int_toString_pos cs_def [symmetric] e r1 r2 slice_prefix
        Let_def)
  then show ?thesis by (simp add: cs_def a_def)
qed

lemma floor_times_powi:
  "\<lfloor>(of_int c :: rat) * 10 powi k\<rfloor> = (if 0 \<le> k then c * 10 ^ nat k else c div 10 ^ nat (- k))"
proof (cases "0 \<le> k")
  case True
  then have "(of_int c :: rat) * 10 powi k = of_int (c * 10 ^ nat k)"
    by (simp add: power_int_def)
  then show ?thesis using True by (simp only: floor_of_int if_True)
next
  case False
  then have "(of_int c :: rat) * 10 powi k = of_int c / of_int (10 ^ nat (- k))"
    by (simp add: power_int_def field_simps)
  then show ?thesis using False by (simp only: floor_divide_of_int_eq if_False)
qed

lemma powi_times_power: "(10::rat) powi e * 10 ^ d = 10 powi (e + int d)"
  by (simp add: power_int_add)

lemma abs_val_canonical:
  assumes "canonical x" and "coefficient x \<noteq> 0"
  shows "\<bar>val x\<bar> = of_int (coefficient x) * 10 powi exponent x"
    and "val x < 0 \<longleftrightarrow> sign x < 0"
proof -
  have c: "0 < coefficient x" and s: "sign x = 1 \<or> sign x = - 1"
    using assms by (simp_all add: canonical_def)
  have p: "(0::rat) < 10 powi exponent x" by (simp add: zero_less_power_int)
  have cp: "(0::rat) < of_int (coefficient x) * 10 powi exponent x"
    using c p by simp
  from s show "\<bar>val x\<bar> = of_int (coefficient x) * 10 powi exponent x"
  proof
    assume "sign x = 1"
    then show ?thesis using cp by (simp add: val_def)
  next
    assume "sign x = - 1"
    then show ?thesis using cp by (simp add: val_def)
  qed
  from s show "val x < 0 \<longleftrightarrow> sign x < 0"
  proof
    assume "sign x = 1"
    then show ?thesis using cp by (simp add: val_def not_less less_imp_le)
  next
    assume "sign x = - 1"
    then show ?thesis using cp by (simp add: val_def)
  qed
qed

lemma fixed_point_text_canonical:
  assumes "canonical x" and "coefficient x \<noteq> 0"
  shows "fixed_point_text x d =
    (if sign x < 0 then ''-'' else [])
    @ dec (nat (if 0 \<le> exponent x then coefficient x * 10 ^ nat (exponent x)
                else coefficient x div 10 ^ nat (- exponent x)))
    @ ''.''
    @ fixw d (nat (if 0 \<le> exponent x + int d
                   then coefficient x * 10 ^ nat (exponent x + int d)
                   else coefficient x div 10 ^ nat (- (exponent x + int d))))"
proof -
  have "\<bar>val x\<bar> * 10 ^ d = of_int (coefficient x) * 10 powi (exponent x + int d)"
    using abs_val_canonical(1)[OF assms] powi_times_power[of "exponent x" d]
    by (simp add: mult.assoc)
  then show ?thesis
    unfolding fixed_point_text_def
    using abs_val_canonical[OF assms]
    by (simp only: floor_times_powi)
qed

lemma fraction_digits:
  "take d (fixw a c @ replicate (d - a) CHR ''0'')
     = fixw d (if a \<le> d then c * 10 ^ (d - a) else c div 10 ^ (a - d))"
proof (cases "a \<le> d")
  case True
  have "fixw a c @ replicate (d - a) CHR ''0'' = fixw (a + (d - a)) (c * 10 ^ (d - a))"
    by (rule fixw_append_zeros)
  then show ?thesis using True by simp
next
  case False
  then show ?thesis by (simp add: take_fixw)
qed

lemma nat_times_power: "0 \<le> c \<Longrightarrow> nat (c * 10 ^ k) = nat c * 10 ^ k"
  by (simp add: nat_mult_distrib nat_power_eq)

lemma nat_div_power: "0 \<le> c \<Longrightarrow> nat (c div 10 ^ k) = nat c div 10 ^ k"
  by (simp add: nat_div_distrib nat_power_eq)

lemma toFixed_refines_nonzero:
  assumes can: "canonical x" and nz: "coefficient x \<noteq> 0" and d: "0 \<le> d"
  shows "toFixed x d = Inr (fixed_point_text x (nat d))"
proof -
  define c where "c = nat (coefficient x)"
  define cs where "cs = dec c"
  have cpos: "0 < coefficient x" using can nz by (simp add: canonical_def)
  then have c0: "0 < c" and ci: "0 \<le> coefficient x" by (simp_all add: c_def)
  note spec = fixed_point_text_canonical[OF can nz, of "nat d"]
  show ?thesis
  proof (cases "0 \<le> exponent x")
    case True
    define e where "e = nat (exponent x)"
    have ex: "exponent x = int e" using True by (simp add: e_def)
    have "nat (coefficient x * 10 ^ nat (exponent x)) = c * 10 ^ e"
      using ci by (simp add: nat_times_power c_def e_def)
    moreover have "nat (coefficient x * 10 ^ nat (exponent x + int (nat d))) = c * 10 ^ e * 10 ^ nat d"
    proof -
      have "nat (exponent x + int (nat d)) = e + nat d" using ex d by simp
      then have "nat (coefficient x * 10 ^ nat (exponent x + int (nat d))) = c * 10 ^ (e + nat d)"
        using ci by (simp only: nat_times_power c_def)
      then show ?thesis by (simp add: power_add)
    qed
    ultimately have "fixed_point_text x (nat d) =
      (if sign x < 0 then ''-'' else []) @ dec (c * 10 ^ e) @ ''.'' @ fixw (nat d) (c * 10 ^ e * 10 ^ nat d)"
      using spec True by simp
    also have "\<dots> = (if sign x < 0 then ''-'' else []) @ dec c @ replicate e CHR ''0'' @ ''.''
        @ replicate (nat d) CHR ''0''"
      using c0 by (simp add: dec_shift fixw_shift_zero)
    finally show ?thesis
      using toFixed_nonneg_exponent[OF cpos True d] by (simp add: c_def e_def)
  next
    case False
    define a where "a = nat (- exponent x)"
    have a0: "0 < a" and ex: "exponent x = - int a" using False by (simp_all add: a_def)
    have neg: "exponent x < 0" using False by simp
    have ip: "nat (coefficient x div 10 ^ nat (- exponent x)) = c div 10 ^ a"
      using ci by (simp add: nat_div_power c_def a_def)
    have fp: "nat (if 0 \<le> exponent x + int (nat d)
                   then coefficient x * 10 ^ nat (exponent x + int (nat d))
                   else coefficient x div 10 ^ nat (- (exponent x + int (nat d))))
        = (if a \<le> nat d then c * 10 ^ (nat d - a) else c div 10 ^ (a - nat d))"
    proof (cases "a \<le> nat d")
      case True
      then have "nat (exponent x + int (nat d)) = nat d - a" using ex d by simp
      with True ci ex d show ?thesis by (simp add: nat_times_power c_def)
    next
      case F: False
      then have "nat (- (exponent x + int (nat d))) = a - nat d" using ex d by simp
      with F ci ex d show ?thesis by (simp add: nat_div_power c_def)
    qed
    have ft: "fixed_point_text x (nat d) =
      (if sign x < 0 then ''-'' else []) @ dec (c div 10 ^ a) @ ''.''
        @ take (nat d) (fixw a c @ replicate (nat d - a) CHR ''0'')"
      using spec False ip fp by (simp only: fraction_digits if_False)
    show ?thesis
    proof (cases "a < length cs")
      case True
      then have "\<not> c < 10 ^ a" using length_dec_le[OF a0, of c] by (simp add: cs_def)
      then have "10 ^ a \<le> c" by simp
      from dec_split[OF this] have sp: "cs = dec (c div 10 ^ a) @ fixw a c"
        by (simp add: cs_def)
      have l: "length cs - a = length (dec (c div 10 ^ a))"
        by (subst sp) simp
      have "take (length cs - a) cs = dec (c div 10 ^ a)"
        by (subst l, subst sp) simp
      moreover have "drop (length cs - a) cs = fixw a c"
        by (subst l, subst sp) simp
      ultimately show ?thesis
        using toFixed_point_inside[OF cpos neg d] True ft
        by (simp add: c_def [symmetric] cs_def [symmetric] a_def [symmetric])
    next
      case F: False
      then have le: "length cs \<le> a" by simp
      then have lt: "c < 10 ^ a" using length_dec_le[OF a0, of c] by (simp add: cs_def)
      then have "dec (c div 10 ^ a) = ''0''" by (simp add: dec_small digit_char_def)
      moreover have "replicate (a - length cs) CHR ''0'' @ cs = fixw a c"
        using pad_dec[OF c0 lt] by (simp add: cs_def)
      ultimately show ?thesis
        using toFixed_point_left[OF cpos neg d] le ft
        by (simp add: c_def [symmetric] cs_def [symmetric] a_def [symmetric]
            append_assoc [symmetric] del: append_assoc)
    qed
  qed
qed

lemma fixed_point_text_zero:
  "coefficient x = 0 \<Longrightarrow> fixed_point_text x d = ''0.'' @ replicate d CHR ''0''"
  by (simp add: fixed_point_text_def val_def dec_small digit_char_def fixw_zero)

lemma toFixed_example:
  "from_string ''12345.6789'' = Inr \<lparr>coefficient = 123456789, exponent = - 4, sign = 1\<rparr>"
  "toFixed \<lparr>coefficient = 123456789, exponent = - 4, sign = 1\<rparr> 6 = Inr ''12345.678900''"
proof -
  show "from_string ''12345.6789'' = Inr \<lparr>coefficient = 123456789, exponent = - 4, sign = 1\<rparr>"
    by (simp add: parse_eval)
  have d: "dec 123456789 = ''123456789''"
    by (simp add: dec.simps digit_char_def)
  have "toFixed \<lparr>coefficient = 123456789, exponent = - 4, sign = 1\<rparr> 6 =
    Inr ([] @ take (length ''123456789'' - nat 4) ''123456789'' @ ''.''
         @ take (nat 6) (drop (length ''123456789'' - nat 4) ''123456789''
              @ replicate (nat 6 - nat 4) CHR ''0''))"
    using toFixed_point_inside[of "\<lparr>coefficient = 123456789, exponent = - 4, sign = 1\<rparr>" 6]
    by (simp add: d)
  then show "toFixed \<lparr>coefficient = 123456789, exponent = - 4, sign = 1\<rparr> 6 = Inr ''12345.678900''"
    by (simp add: numeral_2_eq_2)
qed

text \<open>
  Claim C6. For every canonical \<open>BigNum\<close> and every count \<open>d\<close> of digits that is not
  negative, \<open>toFixed(d)\<close> returns the exact fixed-point expansion of the value,
  truncated and not rounded to \<open>d\<close> digits after the point: a minus sign for a negative
  value, the numeral of the integer part of the magnitude, a point, and the first \<open>d\<close>
  digits of the fraction. Zero is rendered as \<open>0.\<close> followed by \<open>d\<close> zeros, and the
  text \<open>12345.6789\<close> parses to a \<open>BigNum\<close> that \<open>toFixed(6)\<close> renders as
  \<open>12345.678900\<close>.
\<close>

theorem toFixed_exact:
  "canonical x \<Longrightarrow> 0 \<le> d \<Longrightarrow>
     toFixed x d = Inr (fixed_point_text x (nat d))
     \<and> (coefficient x = 0 \<longrightarrow> toFixed x d = Inr (''0.'' @ replicate (nat d) CHR ''0''))
     \<and> (\<exists>y. from_string ''12345.6789'' = Inr y \<and> toFixed y 6 = Inr ''12345.678900'')"
proof (intro conjI)
  assume can: "canonical x" and d: "0 \<le> d"
  show "toFixed x d = Inr (fixed_point_text x (nat d))"
  proof (cases "coefficient x = 0")
    case True
    then show ?thesis using d by (simp add: toFixed_zero fixed_point_text_zero)
  next
    case False
    show ?thesis by (rule toFixed_refines_nonzero [OF can False d])
  qed
  show "coefficient x = 0 \<longrightarrow> toFixed x d = Inr (''0.'' @ replicate (nat d) CHR ''0'')"
    using d by (simp add: toFixed_zero)
  show "\<exists>y. from_string ''12345.6789'' = Inr y \<and> toFixed y 6 = Inr ''12345.678900''"
    by (intro exI conjI) (rule toFixed_example)+
qed

theorem toFixed_exact_witness:
  "canonical \<lparr>coefficient = 123, exponent = - 5, sign = - 1\<rparr> \<and> (0::int) \<le> 2
   \<and> toFixed \<lparr>coefficient = 123, exponent = - 5, sign = - 1\<rparr> 2 = Inr ''-0.00''
   \<and> fixed_point_text \<lparr>coefficient = 123, exponent = - 5, sign = - 1\<rparr> 2 = ''-0.00''
   \<and> canonical \<lparr>coefficient = 0, exponent = 0, sign = 1\<rparr>
   \<and> toFixed \<lparr>coefficient = 0, exponent = 0, sign = 1\<rparr> 3 = Inr ''0.000''"
proof -
  have c: "canonical \<lparr>coefficient = 123, exponent = - 5, sign = - 1\<rparr>"
    and z: "canonical \<lparr>coefficient = 0, exponent = 0, sign = 1\<rparr>"
    by (simp_all add: canonical_def)
  have t: "toFixed \<lparr>coefficient = 123, exponent = - 5, sign = - 1\<rparr> 2 = Inr ''-0.00''"
    by (simp add: toFixed_def int_toString_def dec.simps digit_char_def repeat_def slice_def
        slice_index_def numeral_2_eq_2)
  have p: "(0::int) \<le> 2" and q: "(0::int) \<le> 3" by simp_all
  from toFixed_exact [OF c p]
  have "toFixed \<lparr>coefficient = 123, exponent = - 5, sign = - 1\<rparr> 2
      = Inr (fixed_point_text \<lparr>coefficient = 123, exponent = - 5, sign = - 1\<rparr> (nat 2))"
    by (rule conjunct1)
  with t have f: "fixed_point_text \<lparr>coefficient = 123, exponent = - 5, sign = - 1\<rparr> 2 = ''-0.00''"
    by simp
  from toFixed_exact [OF z q]
  have "coefficient \<lparr>coefficient = 0, exponent = 0, sign = 1\<rparr> = 0 \<longrightarrow>
      toFixed \<lparr>coefficient = 0, exponent = 0, sign = 1\<rparr> 3 = Inr (''0.'' @ replicate (nat 3) CHR ''0'')"
    by (rule conjunct2 [THEN conjunct1])
  then have o: "toFixed \<lparr>coefficient = 0, exponent = 0, sign = 1\<rparr> 3 = Inr ''0.000''"
    by (simp add: numeral_3_eq_3)
  from c p t f z o show ?thesis by (intro conjI)
qed

end
